theory Spec2Isabelle
  imports Complex_Main "HOL-Library.Log_Nat"
begin

section \<open>Single-precision arithmetic\<close>

text \<open>
  Game.cpp computes with C++ \<^verbatim>\<open>float\<close>: IEEE-754 binary32 on the only platform the
  program builds for (Direct3D 11 on Windows, where Visual C++ rounds every float operation
  to binary32). A float value is modelled by the rational number it denotes, and every
  operation rounds its exact result to the nearest binary32 number, ties to even: 24
  significant bits, gradual underflow below \<open>2\<^sup>-\<^sup>1\<^sup>2\<^sup>6\<close>. Overflow to infinity is not
  modelled; no magnitude in this file comes near \<open>2\<^sup>1\<^sup>2\<^sup>8\<close>. Division by zero is
  handled where it can occur (\<open>fdiv_checked\<close>).
\<close>

type_synonym float = rat

definition rne :: "rat \<Rightarrow> int" where
  \<comment> \<open>round to the nearest integer, ties to even\<close>
  "rne x = (let f = \<lfloor>x\<rfloor>; d = x - of_int f in
     if d < 1/2 then f else if 1/2 < d then f + 1 else if even f then f else f + 1)"

definition expo :: "rat \<Rightarrow> int" where
  \<comment> \<open>the binary exponent of a nonzero \<open>x\<close>: \<open>2 powi expo x \<le> \<bar>x\<bar> < 2 powi (expo x + 1)\<close>\<close>
  "expo x = (let (p, q) = quotient_of \<bar>x\<bar>; e = bitlen p - bitlen q in
     if 2 powi e \<le> \<bar>x\<bar> then e else e - 1)"

definition ulp :: "rat \<Rightarrow> rat" where
  \<comment> \<open>the spacing of binary32 numbers around \<open>x\<close>\<close>
  "ulp x = 2 powi (max (expo x) (-126) - 23)"

definition rnd32 :: "rat \<Rightarrow> float" where
  "rnd32 x = (if x = 0 then 0 else of_int (rne (x / ulp x)) * ulp x)"

definition f32 :: "rat \<Rightarrow> float" where
  \<comment> \<open>a literal with suffix \<^verbatim>\<open>f\<close>, such as \<^verbatim>\<open>0.1f\<close>\<close>
  "f32 q = rnd32 q"

definition float_of_int :: "int \<Rightarrow> float" where
  \<comment> \<open>the conversion \<^verbatim>\<open>(float)n\<close>\<close>
  "float_of_int n = rnd32 (of_int n)"

definition fadd :: "float \<Rightarrow> float \<Rightarrow> float" where
  "fadd a b = rnd32 (a + b)"

definition fsub :: "float \<Rightarrow> float \<Rightarrow> float" where
  "fsub a b = rnd32 (a - b)"

definition fmul :: "float \<Rightarrow> float \<Rightarrow> float" where
  "fmul a b = rnd32 (a * b)"

definition fdiv :: "float \<Rightarrow> float \<Rightarrow> float" where
  \<comment> \<open>division by a divisor known to be nonzero\<close>
  "fdiv a b = rnd32 (a / b)"

datatype fvalue = Finite float | NonFinite

definition fdiv_checked :: "float \<Rightarrow> float \<Rightarrow> fvalue" where
  \<comment> \<open>float division never traps: a zero divisor gives an infinity or a NaN\<close>
  "fdiv_checked a b = (if b = 0 then NonFinite else Finite (fdiv a b))"


section \<open>Data model\<close>

text \<open>
  Modelled from the spec: the types declared in Lights.h, Camera.h, Material.h,
  GameEntity.h, Sky.h, Game.h and DXCore.h, none of which is under src/. Each record keeps
  the members that Game.cpp reads or writes, with the meaning section 3 of the spec gives
  them. The selectors \<open>vx\<close>, \<open>vy\<close>, \<open>vz\<close> are the members \<^verbatim>\<open>x\<close>, \<^verbatim>\<open>y\<close>, \<^verbatim>\<open>z\<close> of
  \<^verbatim>\<open>XMFLOAT3\<close>; the three type tags are the macros \<^verbatim>\<open>LIGHT_TYPE_...\<close>.
\<close>

datatype XMFLOAT3 = XMFLOAT3 (vx: float) (vy: float) (vz: float)

datatype LightType = LIGHT_TYPE_DIRECTIONAL | LIGHT_TYPE_POINT | LIGHT_TYPE_SPOT

record Light =
  Type :: LightType
  Direction :: XMFLOAT3
  Range :: float
  Position :: XMFLOAT3
  Intensity :: float
  Color :: XMFLOAT3

text \<open>
  DirectXMath is not part of the repository: a matrix is kept as the expression that
  builds it. \<open>CameraView\<close> and \<open>CameraProjection\<close> stand for the matrices returned by
  \<^verbatim>\<open>camera->GetView()\<close> and \<^verbatim>\<open>camera->GetProjection()\<close>.
\<close>

record Camera =
  position :: XMFLOAT3
  aspectRatio :: fvalue

datatype XMMATRIX =
    XMMatrixIdentity
  | XMMatrixScaling float float float
  | XMMatrixTranslation float float float
  | XMMatrixMultiply XMMATRIX XMMATRIX
  | XMMatrixTranspose XMMATRIX
  | XMMatrixInverse XMMATRIX
  | CameraView Camera
  | CameraProjection Camera

type_synonym Shader = string
type_synonym Mesh = string

record Material =
  pixelShader :: Shader

record GameEntity =
  mesh :: Mesh
  material :: Material

record Sky =
  specularMipLevels :: int

text \<open>
  Modelled from the spec: \<^verbatim>\<open>SpriteBatch\<close> (DirectX Tool Kit, not under src/). Overlay
  drawing mutates global pipeline state: when the batch is flushed by \<^verbatim>\<open>End()\<close> it leaves
  its own blend state and depth-stencil state set on the device context.
\<close>

record SpriteBatch =
  batchBlendState :: nat
  batchDepthStencilState :: nat

text \<open>
  The calls Game.cpp makes on the device context, the swap chain, the shaders, the meshes
  and the other collaborators, in the order they are issued. A shader or a mesh is named
  by the file it was loaded from. A state pointer is \<open>None\<close> for the null pointer, which
  selects the pipeline's default state. The arguments kept are:
  \<open>ClearRenderTargetView color\<close>; \<open>ClearDepthStencilView depth? stencil? depth stencil\<close>
  (the two flags, then the two values); \<open>SetData shader name records\<close>;
  \<open>DrawString text x y\<close>; \<open>OMSetBlendState state sampleMask\<close>;
  \<open>OMSetDepthStencilState state stencilRef\<close>; \<open>Present syncInterval flags\<close>.
\<close>

datatype Call =
    ClearRenderTargetView "float list"
  | ClearDepthStencilView bool bool float nat
  | SetData Shader string "Light list"
  | SetInt Shader string int
  | SetFloat3 Shader string XMFLOAT3
  | SetMatrix4x4 Shader string XMMATRIX
  | CopyBufferData Shader string
  | CopyAllBufferData Shader
  | SetShader Shader
  | Entity_Draw GameEntity Camera
  | SetBuffersAndDraw Mesh
  | Sky_Draw Camera
  | SpriteBatch_Begin
  | DrawString string float float
  | SpriteBatch_End SpriteBatch
  | OMSetBlendState "nat option" nat
  | OMSetDepthStencilState "nat option" nat
  | ImGui_Render
  | ImGui_RenderDrawData
  | Present nat nat
  | OMSetRenderTargets
  | DXCore_OnResize

record Context =
  blendState :: "nat option"
  depthStencilState :: "nat option"
  calls :: "Call list"

text \<open>
  Modelled from the spec: the members of \<^verbatim>\<open>Game\<close> and of its base \<^verbatim>\<open>DXCore\<close> (Game.h and
  DXCore.h are not under src/) that the modelled functions use. \<open>lightCount\<close> is the
  declared capacity of the light collection, \<open>width\<close> and \<open>height\<close> the size of the surface:
  they are counts (the code assigns them 0, 32, 1280 and 720 and compares \<open>lightCount\<close>
  with \<^verbatim>\<open>lights.size()\<close>) and are natural numbers here. The camera is optional because
  \<^verbatim>\<open>OnResize\<close> tests the pointer; the other assets are those loaded by \<^verbatim>\<open>Init\<close>.
  \<open>rand_seq\<close> is the state of the C runtime's generator: the values the coming calls
  of \<^verbatim>\<open>rand()\<close> return.
\<close>

record Game =
  ctx :: Context
  camera :: "Camera option"
  sky :: Sky
  spriteBatch :: SpriteBatch
  entities :: "GameEntity list"
  lights :: "Light list"
  lightCount :: nat
  lightMesh :: Mesh
  lightVS :: Shader
  lightPS :: Shader
  width :: nat
  height :: nat
  rand_seq :: "nat \<Rightarrow> int"

datatype error = NullPointer | OutOfRange


section \<open>Light generation\<close>

definition RAND_MAX :: int where
  \<comment> \<open>the value of the Microsoft C runtime; the proofs use only that it is positive\<close>
  "RAND_MAX = 32767"

definition rand :: "Game \<Rightarrow> int \<times> Game" where
  "rand g = (rand_seq g 0, g\<lparr>rand_seq := \<lambda>n. rand_seq g (Suc n)\<rparr>)"

text \<open>
  \<^verbatim>\<open>#define RandomRange(min, max) (float)rand() / RAND_MAX * (max - min) + min\<close>
\<close>

definition RandomRange :: "float \<Rightarrow> float \<Rightarrow> Game \<Rightarrow> float \<times> Game" where
  "RandomRange mn mx g =
     (let (r, g') = rand g
      in (fadd (fmul (fdiv (float_of_int r) (float_of_int RAND_MAX)) (fsub mx mn)) mn, g'))"

definition Light_zero :: "LightType \<Rightarrow> Light" where
  \<comment> \<open>\<^verbatim>\<open>Light l = {}; l.Type = t;\<close>\<close>
  "Light_zero t = \<lparr>Type = t, Direction = XMFLOAT3 0 0 0, Range = 0,
     Position = XMFLOAT3 0 0 0, Intensity = 0, Color = XMFLOAT3 0 0 0\<rparr>"

definition dir1 :: Light where
  "dir1 = (Light_zero LIGHT_TYPE_DIRECTIONAL)
     \<lparr>Direction := XMFLOAT3 1 (-1) 1,
      Color := XMFLOAT3 (f32 (8/10)) (f32 (8/10)) (f32 (8/10)),
      Intensity := 1\<rparr>"

definition dir2 :: Light where
  "dir2 = (Light_zero LIGHT_TYPE_DIRECTIONAL)
     \<lparr>Direction := XMFLOAT3 (-1) (f32 (-(25/100))) 0,
      Color := XMFLOAT3 (f32 (2/10)) (f32 (2/10)) (f32 (2/10)),
      Intensity := 1\<rparr>"

definition dir3 :: Light where
  "dir3 = (Light_zero LIGHT_TYPE_DIRECTIONAL)
     \<lparr>Direction := XMFLOAT3 0 (-1) 1,
      Color := XMFLOAT3 (f32 (2/10)) (f32 (2/10)) (f32 (2/10)),
      Intensity := 1\<rparr>"

text \<open>
  The body of the while loop. C++ leaves the order in which the three arguments of a
  constructor call are evaluated open; the model draws them left to right. No theorem
  below depends on which draw feeds which component.
\<close>

definition random_point :: "Game \<Rightarrow> Light \<times> Game" where
  "random_point g0 =
     (let (px, g1) = RandomRange (-10) 10 g0;
          (py, g2) = RandomRange (-5) 5 g1;
          (pz, g3) = RandomRange (-10) 10 g2;
          (cr, g4) = RandomRange 0 1 g3;
          (cg, g5) = RandomRange 0 1 g4;
          (cb, g6) = RandomRange 0 1 g5;
          (rg, g7) = RandomRange 5 10 g6;
          (it, g8) = RandomRange (f32 (1/10)) 3 g7
      in ((Light_zero LIGHT_TYPE_POINT)
            \<lparr>Position := XMFLOAT3 px py pz, Color := XMFLOAT3 cr cg cb,
             Range := rg, Intensity := it\<rparr>, g8))"

definition push_point :: "Game \<Rightarrow> Game" where
  "push_point g = (let (point, g') = random_point g in g'\<lparr>lights := lights g' @ [point]\<rparr>)"

function GenerateLights_loop :: "Game \<Rightarrow> Game" where
  "GenerateLights_loop g =
     (if length (lights g) < lightCount g then GenerateLights_loop (push_point g) else g)"
  by pat_completeness auto
termination
  by (relation "measure (\<lambda>g. lightCount g - length (lights g))")
     (auto simp: push_point_def random_point_def RandomRange_def rand_def Let_def
        split: prod.splits)

declare GenerateLights_loop.simps [simp del]

definition GenerateLights :: "Game \<Rightarrow> Game" where
  "GenerateLights g = GenerateLights_loop (g\<lparr>lights := [] @ [dir1] @ [dir2] @ [dir3]\<rparr>)"


section \<open>The device context\<close>

text \<open>
  What a call does to the blend and depth-stencil state of the context. Only the calls
  whose effect Game.cpp relies on are interpreted: the two state setters, and the flush
  of the sprite batch.
\<close>

fun effect :: "Call \<Rightarrow> Context \<Rightarrow> Context" where
  "effect (OMSetBlendState b m) c = c\<lparr>blendState := b\<rparr>"
| "effect (OMSetDepthStencilState d r) c = c\<lparr>depthStencilState := d\<rparr>"
| "effect (SpriteBatch_End sb) c =
     c\<lparr>blendState := Some (batchBlendState sb),
       depthStencilState := Some (batchDepthStencilState sb)\<rparr>"
| "effect k c = c"

definition issue :: "Context \<Rightarrow> Call \<Rightarrow> Context" where
  "issue c k = (effect k c)\<lparr>calls := calls c @ [k]\<rparr>"

definition emit :: "Call list \<Rightarrow> Game \<Rightarrow> Game" where
  "emit ks g = g\<lparr>ctx := foldl issue (ctx g) ks\<rparr>"


section \<open>Resize\<close>

text \<open>
  Modelled from the spec: \<^verbatim>\<open>Camera::UpdateProjectionMatrix\<close> (Camera.cpp is not under
  src/), the aspect-ratio update operation of the camera: it takes the new aspect ratio
  and rebuilds the projection matrix from it. The model keeps the aspect ratio the camera
  was last given. \<^verbatim>\<open>DXCore::OnResize\<close> (DXCore.cpp is not under src/ either) is kept as
  one call; \<open>width\<close> and \<open>height\<close> already hold the new size when \<^verbatim>\<open>OnResize\<close> runs.
\<close>

definition UpdateProjectionMatrix :: "fvalue \<Rightarrow> Camera \<Rightarrow> Camera" where
  "UpdateProjectionMatrix a cam = cam\<lparr>aspectRatio := a\<rparr>"

definition OnResize :: "Game \<Rightarrow> Game" where
  "OnResize g =
     (let g1 = emit [DXCore_OnResize] g
      in case camera g1 of
           None \<Rightarrow> g1
         | Some cam \<Rightarrow>
             g1\<lparr>camera := Some (UpdateProjectionMatrix
                (fdiv_checked (float_of_int (int (width g1))) (float_of_int (int (height g1))))
                cam)\<rparr>)"


section \<open>Drawing\<close>

text \<open>
  The "per frame" data and the draw of one entity. \<^verbatim>\<open>&lights[0]\<close> needs a first element,
  and \<^verbatim>\<open>SetData\<close> reads \<^verbatim>\<open>sizeof(Light) * lightCount\<close> bytes from there: \<open>lightCount\<close>
  records.
\<close>

definition draw_entity :: "GameEntity \<Rightarrow> Game \<Rightarrow> error + Game" where
  "draw_entity ge g =
     (let ps = pixelShader (material ge)
      in if lights g = [] \<or> length (lights g) < lightCount g then Inl OutOfRange
         else case camera g of
                None \<Rightarrow> Inl NullPointer
              | Some cam \<Rightarrow>
                  Inr (emit [SetData ps ''lights'' (take (lightCount g) (lights g)),
                             SetInt ps ''lightCount'' (int (lightCount g)),
                             SetFloat3 ps ''cameraPosition'' (position cam),
                             SetInt ps ''SpecIBLTotalMipLevels'' (specularMipLevels (sky g)),
                             CopyBufferData ps ''perFrame'',
                             Entity_Draw ge cam] g))"

fun draw_entities :: "GameEntity list \<Rightarrow> Game \<Rightarrow> error + Game" where
  "draw_entities [] g = Inr g"
| "draw_entities (ge # ges) g =
     (case draw_entity ge g of Inl e \<Rightarrow> Inl e | Inr g' \<Rightarrow> draw_entities ges g')"

text \<open>The body of the loop of \<^verbatim>\<open>DrawPointLights\<close> for a light that is not skipped.\<close>

definition draw_light :: "Light \<Rightarrow> Game \<Rightarrow> Game" where
  "draw_light light g =
     (let scale = fdiv (Range light) 20;
          rotMat = XMMatrixIdentity;
          scaleMat = XMMatrixScaling scale scale scale;
          transMat = XMMatrixTranslation
            (vx (Position light)) (vy (Position light)) (vz (Position light));
          worldMat = XMMatrixMultiply (XMMatrixMultiply scaleMat rotMat) transMat;
          world = worldMat;
          worldInvTrans = XMMatrixInverse (XMMatrixTranspose worldMat);
          finalColor = Color light;
          finalColor = XMFLOAT3 (fmul (vx finalColor) (Intensity light))
            (vy finalColor) (vz finalColor);
          finalColor = XMFLOAT3 (vx finalColor)
            (fmul (vy finalColor) (Intensity light)) (vz finalColor);
          finalColor = XMFLOAT3 (vx finalColor) (vy finalColor)
            (fmul (vz finalColor) (Intensity light))
      in emit [SetMatrix4x4 (lightVS g) ''world'' world,
               SetMatrix4x4 (lightVS g) ''worldInverseTranspose'' worldInvTrans,
               SetFloat3 (lightPS g) ''Color'' finalColor,
               CopyAllBufferData (lightVS g),
               CopyAllBufferData (lightPS g),
               SetBuffersAndDraw (lightMesh g)] g)"

function DrawPointLights_loop :: "nat \<Rightarrow> Game \<Rightarrow> error + Game" where
  "DrawPointLights_loop i g =
     (if i < lightCount g then
        (if length (lights g) \<le> i then Inl OutOfRange
         else let light = lights g ! i
              in if Type light \<noteq> LIGHT_TYPE_POINT then DrawPointLights_loop (i + 1) g
                 else DrawPointLights_loop (i + 1) (draw_light light g))
      else Inr g)"
  by pat_completeness auto
termination
  by (relation "measure (\<lambda>(i, g). lightCount g - i)")
     (auto simp: draw_light_def emit_def Let_def)

declare DrawPointLights_loop.simps [simp del]

definition DrawPointLights :: "Game \<Rightarrow> error + Game" where
  "DrawPointLights g =
     (let g1 = emit [SetShader (lightVS g), SetShader (lightPS g)] g
      in case camera g1 of
           None \<Rightarrow> Inl NullPointer
         | Some cam \<Rightarrow>
             DrawPointLights_loop 0
               (emit [SetMatrix4x4 (lightVS g1) ''view'' (CameraView cam),
                      SetMatrix4x4 (lightVS g1) ''projection'' (CameraProjection cam)] g1))"

definition DrawUI :: "Game \<Rightarrow> Game" where
  "DrawUI g =
     (let g1 = emit [SpriteBatch_Begin] g;
          h = 10;
          g2 = emit [DrawString ''Controls:'' 10 h,
                     DrawString '' (WASD, X, Space) Move camera'' 10 (fadd h 20),
                     DrawString '' (Left Click & Drag) Rotate camera'' 10 (fadd h 40),
                     DrawString '' (Left Shift) Hold to speed up camera'' 10 (fadd h 60),
                     DrawString '' (Left Ctrl) Hold to slow down camera'' 10 (fadd h 80),
                     DrawString '' (TAB) Randomize lights'' 10 (fadd h 100)] g1;
          h = 150;
          g3 = emit [DrawString ''Scene Details:'' 10 h,
                     DrawString '' Top: PBR materials'' 10 (fadd h 20),
                     DrawString '' Bottom: Non-PBR materials'' 10 (fadd h 40)] g2;
          g4 = emit [SpriteBatch_End (spriteBatch g3)] g3
      in emit [OMSetBlendState None 0xFFFFFFFF, OMSetDepthStencilState None 0] g4)"

text \<open>
  \<^verbatim>\<open>Game::Draw\<close>. Its two parameters, the frame times, are not used by the body.
  \<^verbatim>\<open>sky->Draw(camera)\<close> draws with the camera, so it needs one.
\<close>

definition Draw :: "Game \<Rightarrow> error + Game" where
  "Draw g =
     (let color = [0, 0, 0, 1];
          g1 = emit [ClearRenderTargetView color, ClearDepthStencilView True True 1 0] g
      in case draw_entities (entities g1) g1 of
           Inl e \<Rightarrow> Inl e
         | Inr g2 \<Rightarrow>
            (case DrawPointLights g2 of
               Inl e \<Rightarrow> Inl e
             | Inr g3 \<Rightarrow>
                (case camera g3 of
                   None \<Rightarrow> Inl NullPointer
                 | Some cam \<Rightarrow>
                     (let g4 = emit [Sky_Draw cam] g3;
                          g5 = DrawUI g4
                      in Inr (emit [ImGui_Render, ImGui_RenderDrawData, Present 0 0,
                                    OMSetRenderTargets] g5)))))"


section \<open>The properties, in the words of the specification\<close>

definition rand_in_range :: "Game \<Rightarrow> bool" where
  \<comment> \<open>the contract of \<^verbatim>\<open>rand()\<close>: every value lies between 0 and \<^verbatim>\<open>RAND_MAX\<close>\<close>
  "rand_in_range g \<longleftrightarrow> (\<forall>n. 0 \<le> rand_seq g n \<and> rand_seq g n \<le> RAND_MAX)"

definition point_light_in_bounds :: "Light \<Rightarrow> bool" where
  "point_light_in_bounds l \<longleftrightarrow>
     -10 \<le> vx (Position l) \<and> vx (Position l) \<le> 10 \<and>
     -5 \<le> vy (Position l) \<and> vy (Position l) \<le> 5 \<and>
     -10 \<le> vz (Position l) \<and> vz (Position l) \<le> 10 \<and>
     0 \<le> vx (Color l) \<and> vx (Color l) \<le> 1 \<and>
     0 \<le> vy (Color l) \<and> vy (Color l) \<le> 1 \<and>
     0 \<le> vz (Color l) \<and> vz (Color l) \<le> 1 \<and>
     5 \<le> Range l \<and> Range l \<le> 10 \<and>
     1/10 \<le> Intensity l \<and> Intensity l \<le> 3"

definition is_point :: "Light \<Rightarrow> bool" where
  "is_point l \<longleftrightarrow> Type l = LIGHT_TYPE_POINT"

definition marker_world :: "Light \<Rightarrow> XMMATRIX" where
  \<comment> \<open>uniform scale \<open>range / 20\<close>, identity rotation, translation to the light's position\<close>
  "marker_world l =
     XMMatrixMultiply
       (XMMatrixMultiply
          (XMMatrixScaling (fdiv (Range l) 20) (fdiv (Range l) 20) (fdiv (Range l) 20))
          XMMatrixIdentity)
       (XMMatrixTranslation (vx (Position l)) (vy (Position l)) (vz (Position l)))"

definition marker_color :: "Light \<Rightarrow> XMFLOAT3" where
  \<comment> \<open>the light's color times its intensity, component by component\<close>
  "marker_color l =
     XMFLOAT3 (fmul (vx (Color l)) (Intensity l)) (fmul (vy (Color l)) (Intensity l))
       (fmul (vz (Color l)) (Intensity l))"

definition marker_calls :: "Game \<Rightarrow> Light \<Rightarrow> Call list" where
  "marker_calls g l =
     [SetMatrix4x4 (lightVS g) ''world'' (marker_world l),
      SetMatrix4x4 (lightVS g) ''worldInverseTranspose''
        (XMMatrixInverse (XMMatrixTranspose (marker_world l))),
      SetFloat3 (lightPS g) ''Color'' (marker_color l),
      CopyAllBufferData (lightVS g),
      CopyAllBufferData (lightPS g),
      SetBuffersAndDraw (lightMesh g)]"

definition marker_setup :: "Game \<Rightarrow> Camera \<Rightarrow> Call list" where
  "marker_setup g cam =
     [SetShader (lightVS g), SetShader (lightPS g),
      SetMatrix4x4 (lightVS g) ''view'' (CameraView cam),
      SetMatrix4x4 (lightVS g) ''projection'' (CameraProjection cam)]"

definition marked_lights :: "Game \<Rightarrow> Light list" where
  \<comment> \<open>the Point lights among the first \<open>lightCount\<close> entries, in collection order\<close>
  "marked_lights g = filter is_point (take (lightCount g) (lights g))"

definition frame_constants :: "Game \<Rightarrow> Camera \<Rightarrow> Shader \<Rightarrow> Call list" where
  \<comment> \<open>the frame-scope constants, pushed into pixel shader \<open>ps\<close>\<close>
  "frame_constants g cam ps =
     [SetData ps ''lights'' (take (lightCount g) (lights g)),
      SetInt ps ''lightCount'' (int (lightCount g)),
      SetFloat3 ps ''cameraPosition'' (position cam),
      SetInt ps ''SpecIBLTotalMipLevels'' (specularMipLevels (sky g))]"

definition entity_calls :: "Game \<Rightarrow> Camera \<Rightarrow> GameEntity \<Rightarrow> Call list" where
  "entity_calls g cam ge =
     frame_constants g cam (pixelShader (material ge))
     @ [CopyBufferData (pixelShader (material ge)) ''perFrame'', Entity_Draw ge cam]"

datatype Pass =
  ClearPass | EntityPass | LightMarkerPass | EnvironmentPass | OverlayPass | DebugUIPass
  | PresentPass

text \<open>The pass a clear, a draw or the present belongs to; the other calls bind state.\<close>

fun pass_of :: "Call \<Rightarrow> Pass option" where
  "pass_of (ClearRenderTargetView c) = Some ClearPass"
| "pass_of (ClearDepthStencilView d s v r) = Some ClearPass"
| "pass_of (Entity_Draw ge cam) = Some EntityPass"
| "pass_of (SetBuffersAndDraw m) = Some LightMarkerPass"
| "pass_of (Sky_Draw cam) = Some EnvironmentPass"
| "pass_of (DrawString t x y) = Some OverlayPass"
| "pass_of ImGui_RenderDrawData = Some DebugUIPass"
| "pass_of (Present a b) = Some PresentPass"
| "pass_of k = None"

definition passes :: "Call list \<Rightarrow> Pass list" where
  "passes ks = List.map_filter pass_of ks"

definition clear_calls :: "Call list" where
  \<comment> \<open>color target to opaque black, depth to 1.0 and stencil to 0\<close>
  "clear_calls = [ClearRenderTargetView [0, 0, 0, 1], ClearDepthStencilView True True 1 0]"

definition overlay_text :: "Call list" where
  "overlay_text =
     [DrawString ''Controls:'' 10 10,
      DrawString '' (WASD, X, Space) Move camera'' 10 (fadd 10 20),
      DrawString '' (Left Click & Drag) Rotate camera'' 10 (fadd 10 40),
      DrawString '' (Left Shift) Hold to speed up camera'' 10 (fadd 10 60),
      DrawString '' (Left Ctrl) Hold to slow down camera'' 10 (fadd 10 80),
      DrawString '' (TAB) Randomize lights'' 10 (fadd 10 100),
      DrawString ''Scene Details:'' 10 150,
      DrawString '' Top: PBR materials'' 10 (fadd 150 20),
      DrawString '' Bottom: Non-PBR materials'' 10 (fadd 150 40)]"

definition overlay_calls :: "Game \<Rightarrow> Call list" where
  \<comment> \<open>the sprite batch with its text, then the two state resets\<close>
  "overlay_calls g =
     [SpriteBatch_Begin] @ overlay_text @ [SpriteBatch_End (spriteBatch g)]
     @ [OMSetBlendState None 0xFFFFFFFF, OMSetDepthStencilState None 0]"

definition finish_calls :: "Call list" where
  "finish_calls = [ImGui_Render, ImGui_RenderDrawData, Present 0 0, OMSetRenderTargets]"

definition entity_pass :: "Game \<Rightarrow> Camera \<Rightarrow> Call list" where
  "entity_pass g cam = concat (map (entity_calls g cam) (entities g))"

definition marker_pass :: "Game \<Rightarrow> Camera \<Rightarrow> Call list" where
  "marker_pass g cam = marker_setup g cam @ concat (map (marker_calls g) (marked_lights g))"

definition frame_trace :: "Game \<Rightarrow> Camera \<Rightarrow> Call list" where
  "frame_trace g cam =
     clear_calls @ entity_pass g cam @ marker_pass g cam @ [Sky_Draw cam]
     @ overlay_calls g @ finish_calls"

definition frame_calls :: "Game \<Rightarrow> Game \<Rightarrow> Call list" where
  \<comment> \<open>the calls issued between state \<open>g\<close> and the later state \<open>g'\<close>\<close>
  "frame_calls g g' = drop (length (calls (ctx g))) (calls (ctx g'))"


section \<open>Concrete states\<close>

text \<open>The state the constructor leaves: no camera, no lights, capacity 0, a 1280x720 window.\<close>

definition game_ctor :: Game where
  "game_ctor =
     \<lparr>ctx = \<lparr>blendState = None, depthStencilState = None, calls = []\<rparr>,
      camera = None,
      sky = \<lparr>specularMipLevels = 0\<rparr>,
      spriteBatch = \<lparr>batchBlendState = 1, batchDepthStencilState = 2\<rparr>,
      entities = [],
      lights = [],
      lightCount = 0,
      lightMesh = ''sphere.obj'',
      lightVS = ''VertexShader.cso'',
      lightPS = ''SolidColorPS.cso'',
      width = 1280,
      height = 720,
      rand_seq = (\<lambda>n. int ((n * 7919) mod 32768))\<rparr>"

definition demo_camera :: Camera where
  "demo_camera = \<lparr>position = XMFLOAT3 0 0 (-10), aspectRatio = Finite 1\<rparr>"

definition demo_point :: Light where
  "demo_point = (Light_zero LIGHT_TYPE_POINT)
     \<lparr>Position := XMFLOAT3 1 2 3, Color := XMFLOAT3 1 (1/2) 0, Range := 5, Intensity := 2\<rparr>"

definition demo_entity :: GameEntity where
  "demo_entity = \<lparr>mesh = ''sphere.obj'', material = \<lparr>pixelShader = ''PixelShaderPBR.cso''\<rparr>\<rparr>"

text \<open>A running game: a camera, two entities, the three directional lights and two point lights.\<close>

definition game_demo :: Game where
  "game_demo = game_ctor
     \<lparr>camera := Some demo_camera,
      sky := \<lparr>specularMipLevels = 6\<rparr>,
      entities := [demo_entity, demo_entity],
      lights := [dir1, dir2, dir3, demo_point, demo_point\<lparr>Range := 10\<rparr>],
      lightCount := 5\<rparr>"


section \<open>Light generation: shape of the result\<close>

lemma rand_fields [simp]:
  "lights (snd (rand g)) = lights g" "lightCount (snd (rand g)) = lightCount g"
  by (simp_all add: rand_def)

lemma RandomRange_fields [simp]:
  "lights (snd (RandomRange mn mx g)) = lights g"
  "lightCount (snd (RandomRange mn mx g)) = lightCount g"
  by (simp_all add: RandomRange_def rand_def Let_def split: prod.splits)

lemma random_point_fields [simp]:
  "lights (snd (random_point g)) = lights g"
  "lightCount (snd (random_point g)) = lightCount g"
  "Type (fst (random_point g)) = LIGHT_TYPE_POINT"
  unfolding random_point_def Let_def
  by (simp_all add: split_beta Light_zero_def)

lemma push_point_lights:
  "lights (push_point g) = lights g @ [fst (random_point g)]"
  by (simp add: push_point_def split_beta)

lemma push_point_lightCount [simp]: "lightCount (push_point g) = lightCount g"
  by (simp add: push_point_def split_beta)

lemma GenerateLights_loop_lightCount:
  "lightCount (GenerateLights_loop g) = lightCount g"
proof (induction g rule: GenerateLights_loop.induct)
  case (1 g)
  show ?case
  proof (cases "length (lights g) < lightCount g")
    case True
    then show ?thesis using 1 by (subst GenerateLights_loop.simps) simp
  next
    case False
    then show ?thesis by (subst GenerateLights_loop.simps) simp
  qed
qed

lemma GenerateLights_loop_types:
  "map Type (lights (GenerateLights_loop g)) =
     map Type (lights g) @ replicate (lightCount g - length (lights g)) LIGHT_TYPE_POINT"
proof (induction g rule: GenerateLights_loop.induct)
  case (1 g)
  show ?case
  proof (cases "length (lights g) < lightCount g")
    case True
    then have "lightCount g - length (lights g) = Suc (lightCount g - Suc (length (lights g)))"
      by simp
    then show ?thesis using True 1
      by (subst GenerateLights_loop.simps) (simp add: push_point_lights)
  next
    case False
    then show ?thesis by (subst GenerateLights_loop.simps) simp
  qed
qed

lemma GenerateLights_loop_append:
  "\<exists>ys. lights (GenerateLights_loop g) = lights g @ ys"
proof (induction g rule: GenerateLights_loop.induct)
  case (1 g)
  show ?case
  proof (cases "length (lights g) < lightCount g")
    case True
    with 1 obtain ys where "lights (GenerateLights_loop (push_point g)) = lights (push_point g) @ ys"
      by blast
    then have "lights (GenerateLights_loop g) = lights g @ (fst (random_point g) # ys)"
      using True by (subst GenerateLights_loop.simps) (simp add: push_point_lights)
    then show ?thesis by blast
  next
    case False
    then show ?thesis by (subst GenerateLights_loop.simps) simp
  qed
qed

lemma GenerateLights_loop_prefix:
  "take (length (lights g)) (lights (GenerateLights_loop g)) = lights g"
proof -
  obtain ys where "lights (GenerateLights_loop g) = lights g @ ys"
    using GenerateLights_loop_append by blast
  then show ?thesis by simp
qed

lemma GenerateLights_types:
  "map Type (lights (GenerateLights g)) =
     replicate 3 LIGHT_TYPE_DIRECTIONAL @ replicate (lightCount g - 3) LIGHT_TYPE_POINT"
  by (simp add: GenerateLights_def GenerateLights_loop_types dir1_def dir2_def dir3_def
      Light_zero_def numeral_3_eq_3)

lemma GenerateLights_length: "length (lights (GenerateLights g)) = max 3 (lightCount g)"
proof -
  have "length (map Type (lights (GenerateLights g))) = max 3 (lightCount g)"
    by (simp only: GenerateLights_types) auto
  then show ?thesis by simp
qed

lemma GenerateLights_directional:
  "take 3 (lights (GenerateLights g)) = [dir1, dir2, dir3]"
  using GenerateLights_loop_prefix [of "g\<lparr>lights := [dir1, dir2, dir3]\<rparr>"]
  by (simp add: GenerateLights_def numeral_3_eq_3)

lemma GenerateLights_lightCount: "lightCount (GenerateLights g) = lightCount g"
  by (simp add: GenerateLights_def GenerateLights_loop_lightCount)

lemma GenerateLights_prior: "GenerateLights (g\<lparr>lights := ls\<rparr>) = GenerateLights g"
  by (simp add: GenerateLights_def)

text \<open>
  C1: for every capacity \<open>C \<ge> 3\<close>, \<^verbatim>\<open>GenerateLights\<close> with \<open>lightCount = C\<close> leaves exactly
  \<open>C\<close> lights; the lights at indices 0, 1, 2 are tagged Directional and those at indices
  \<open>3 .. C-1\<close> are tagged Point. With \<open>C = 32\<close> that is 3 Directional and 29 Point lights,
  with \<open>C = 3\<close> no Point light at all.
\<close>

theorem GenerateLights_shape:
  assumes "3 \<le> lightCount g"
  shows "length (lights (GenerateLights g)) = lightCount g \<and>
         map Type (lights (GenerateLights g)) =
           replicate 3 LIGHT_TYPE_DIRECTIONAL @ replicate (lightCount g - 3) LIGHT_TYPE_POINT"
  using assms by (simp add: GenerateLights_length GenerateLights_types)

theorem GenerateLights_shape_witness:
  "3 \<le> lightCount (game_ctor\<lparr>lightCount := 32\<rparr>) \<and>
   length (lights (GenerateLights (game_ctor\<lparr>lightCount := 32\<rparr>))) = 32 \<and>
   map Type (lights (GenerateLights (game_ctor\<lparr>lightCount := 32\<rparr>))) =
     replicate 3 LIGHT_TYPE_DIRECTIONAL @ replicate 29 LIGHT_TYPE_POINT \<and>
   3 \<le> lightCount (game_ctor\<lparr>lightCount := 3\<rparr>) \<and>
   length (lights (GenerateLights (game_ctor\<lparr>lightCount := 3\<rparr>))) = 3 \<and>
   map Type (lights (GenerateLights (game_ctor\<lparr>lightCount := 3\<rparr>))) =
     replicate 3 LIGHT_TYPE_DIRECTIONAL"
  using GenerateLights_shape [of "game_ctor\<lparr>lightCount := 32\<rparr>"]
    GenerateLights_shape [of "game_ctor\<lparr>lightCount := 3\<rparr>"]
  by simp

text \<open>
  C3: \<^verbatim>\<open>GenerateLights\<close> replaces the contents of the collection: whatever the collection
  held before, the result is the same, its shape is 3 Directional lights followed by
  \<open>C - 3\<close> Point lights, the three Directional lights are the fixed records \<open>dir1\<close>,
  \<open>dir2\<close>, \<open>dir3\<close>, and two consecutive calls agree on them.
\<close>

theorem GenerateLights_replaces:
  "lights (GenerateLights (g\<lparr>lights := ls\<rparr>)) = lights (GenerateLights g) \<and>
   map Type (lights (GenerateLights g)) =
     replicate 3 LIGHT_TYPE_DIRECTIONAL @ replicate (lightCount g - 3) LIGHT_TYPE_POINT \<and>
   take 3 (lights (GenerateLights g)) = [dir1, dir2, dir3] \<and>
   take 3 (lights (GenerateLights (GenerateLights g))) = take 3 (lights (GenerateLights g))"
  by (simp add: GenerateLights_prior GenerateLights_types GenerateLights_directional)

text \<open>
  C6 as stated, that the collection always ends with exactly \<open>lightCount\<close> lights, fails for
  a capacity below 3: the three directional lights are appended before the capacity is
  looked at. With the capacity 0 the constructor sets, three lights result.
\<close>

theorem GenerateLights_capacity_counterexample:
  "length (lights (GenerateLights game_ctor)) \<noteq> lightCount game_ctor"
  by (simp add: GenerateLights_length game_ctor_def)

text \<open>
  C6, amended: for every capacity, after \<^verbatim>\<open>GenerateLights\<close> the collection holds
  \<open>max 3 lightCount\<close> lights, which is the capacity itself whenever that is at least 3.
\<close>

theorem GenerateLights_capacity:
  "length (lights (GenerateLights g)) = max 3 (lightCount g)"
  by (rule GenerateLights_length)


section \<open>Rounding to single precision is monotone\<close>

lemma bitlen_powi:
  assumes "0 < n"
  shows "(2::rat) powi (bitlen n - 1) \<le> of_int n" and "(of_int n :: rat) < 2 powi (bitlen n)"
proof -
  have b: "2 ^ nat (bitlen n - 1) \<le> n" "n < 2 ^ nat (bitlen n)"
    using bitlen_bounds [OF assms] by simp_all
  have ge1: "1 \<le> bitlen n" using assms by (auto simp: bitlen_alt_def)
  have "(of_int (2 ^ nat (bitlen n - 1)) :: rat) \<le> of_int n" using b(1) by (simp only: of_int_le_iff)
  then show "(2::rat) powi (bitlen n - 1) \<le> of_int n"
    using ge1 by (simp add: power_int_def)
  have "(of_int n :: rat) < of_int (2 ^ nat (bitlen n))" using b(2) by (simp only: of_int_less_iff)
  then show "(of_int n :: rat) < 2 powi (bitlen n)"
    using ge1 by (simp add: power_int_def)
qed

lemma expo_bounds:
  assumes "x \<noteq> 0"
  shows "2 powi (expo x) \<le> \<bar>x\<bar>" and "\<bar>x\<bar> < 2 powi (expo x + 1)"
proof -
  obtain p q where pq: "quotient_of \<bar>x\<bar> = (p, q)" by (cases "quotient_of \<bar>x\<bar>")
  have q: "0 < q" using pq by (rule quotient_of_denom_pos)
  have ax: "\<bar>x\<bar> = of_int p / of_int q" using pq by (rule quotient_of_div)
  have p: "0 < p" using assms ax q
    by (metis abs_ge_zero divide_eq_0_iff linorder_not_less of_int_0 of_int_0_le_iff zero_le_divide_iff zero_less_abs_iff less_le)
  define e where "e = bitlen p - bitlen q"
  have ex: "expo x = (if 2 powi e \<le> \<bar>x\<bar> then e else e - 1)"
    by (simp add: expo_def pq e_def)
  note P = bitlen_powi [OF p] and Q = bitlen_powi [OF q]
  have qpos: "(0::rat) < of_int q" using q by simp
  have up: "\<bar>x\<bar> < 2 powi (e + 1)"
  proof -
    have "of_int p < (2::rat) powi (e + 1) * 2 powi (bitlen q - 1)"
      using P(2) by (simp add: e_def flip: power_int_add)
    also have "\<dots> \<le> 2 powi (e + 1) * of_int q"
      using Q(1) by (intro mult_left_mono) simp_all
    finally show ?thesis using qpos by (simp add: ax pos_divide_less_eq)
  qed
  have lo: "2 powi (e - 1) \<le> \<bar>x\<bar>"
  proof -
    have "(2::rat) powi (e - 1) * of_int q \<le> 2 powi (e - 1) * 2 powi (bitlen q)"
      using Q(2) by (intro mult_left_mono) simp_all
    also have "\<dots> = 2 powi (bitlen p - 1)"
      by (simp add: e_def flip: power_int_add)
    also have "\<dots> \<le> of_int p" by (rule P(1))
    finally show ?thesis using qpos by (simp add: ax pos_le_divide_eq)
  qed
  show "2 powi (expo x) \<le> \<bar>x\<bar>" using lo by (simp add: ex)
  show "\<bar>x\<bar> < 2 powi (expo x + 1)" using up by (auto simp add: ex)
qed


lemma rne_of_int: "rne (of_int n) = n"
  by (simp add: rne_def)

lemma rne_mono: "x \<le> y \<Longrightarrow> rne x \<le> rne y"
proof -
  assume xy: "x \<le> y"
  have fl: "\<lfloor>x\<rfloor> \<le> \<lfloor>y\<rfloor>" using xy by (rule floor_mono)
  have bx: "\<lfloor>x\<rfloor> \<le> rne x" "rne x \<le> \<lfloor>x\<rfloor> + 1" by (simp_all add: rne_def Let_def)
  have by': "\<lfloor>y\<rfloor> \<le> rne y" "rne y \<le> \<lfloor>y\<rfloor> + 1" by (simp_all add: rne_def Let_def)
  show ?thesis
  proof (cases "\<lfloor>x\<rfloor> < \<lfloor>y\<rfloor>")
    case True
    then show ?thesis using bx by' by linarith
  next
    case False
    then have eq: "\<lfloor>x\<rfloor> = \<lfloor>y\<rfloor>" using fl by simp
    then show ?thesis using xy
      unfolding rne_def Let_def by (auto simp: eq)
  qed
qed

lemma powi2_less_D: "(2::rat) powi a < 2 powi b \<Longrightarrow> a < b"
proof (rule ccontr)
  assume l: "(2::rat) powi a < 2 powi b" and "\<not> a < b"
  then have "b \<le> a" by simp
  then have "(2::rat) powi b \<le> 2 powi a" by (rule power_int_increasing) simp
  with l show False by simp
qed

lemma expo_mono:
  assumes "x \<noteq> 0" "\<bar>x\<bar> \<le> \<bar>y\<bar>"
  shows "expo x \<le> expo y"
proof -
  have y: "y \<noteq> 0" using assms by auto
  have "2 powi (expo x) \<le> \<bar>x\<bar>" using assms(1) by (rule expo_bounds)
  also have "\<dots> \<le> \<bar>y\<bar>" by (rule assms(2))
  also have "\<dots> < 2 powi (expo y + 1)" using y by (rule expo_bounds)
  finally have "expo x < expo y + 1" by (rule powi2_less_D)
  then show ?thesis by simp
qed

lemma ulp_pos: "0 < ulp x"
  by (simp add: ulp_def)

lemma rnd32_ulp: "x \<noteq> 0 \<Longrightarrow> rnd32 x = of_int (rne (x / ulp x)) * ulp x"
  by (simp add: rnd32_def)

lemma rne_0: "rne 0 = 0"
  using rne_of_int [of 0] by simp

lemma rnd32_nonneg: "0 \<le> x \<Longrightarrow> 0 \<le> rnd32 x"
proof (cases "x = 0")
  case True then show ?thesis by (simp add: rnd32_def)
next
  case False
  assume "0 \<le> x"
  then have "0 \<le> x / ulp x" using ulp_pos [of x] by simp
  then have "rne 0 \<le> rne (x / ulp x)" by (rule rne_mono)
  then show ?thesis using False ulp_pos [of x] by (simp add: rnd32_ulp rne_0)
qed

lemma rnd32_nonpos: "x \<le> 0 \<Longrightarrow> rnd32 x \<le> 0"
proof (cases "x = 0")
  case True then show ?thesis by (simp add: rnd32_def)
next
  case False
  assume "x \<le> 0"
  then have "x / ulp x \<le> 0" using ulp_pos [of x] by (simp add: divide_le_0_iff)
  then have "rne (x / ulp x) \<le> rne 0" by (rule rne_mono)
  then show ?thesis using False ulp_pos [of x] by (simp add: rnd32_ulp rne_0 mult_le_0_iff)
qed

lemma ulp_scale: "2 powi (max (expo x) (-126) + 1) = 2 ^ 24 * ulp x"
  and ulp_scale': "2 powi (max (expo x) (-126)) = 2 ^ 23 * ulp x"
proof -
  define m where "m = max (expo x) (-126) - 23"
  have "(2::rat) powi (24 + m) = 2 powi 24 * 2 powi m"
    by (rule power_int_add) simp
  moreover have "(2::rat) powi 24 = 2 ^ 24" by (simp add: power_int_def)
  moreover have "24 + m = max (expo x) (-126) + 1" by (simp add: m_def)
  ultimately show "2 powi (max (expo x) (-126) + 1) = 2 ^ 24 * ulp x"
    by (simp add: ulp_def m_def add.commute)
  have "(2::rat) powi (23 + m) = 2 powi 23 * 2 powi m"
    by (rule power_int_add) simp
  moreover have "(2::rat) powi 23 = 2 ^ 23" by (simp add: power_int_def)
  moreover have "23 + m = max (expo x) (-126)" by (simp add: m_def)
  ultimately show "2 powi (max (expo x) (-126)) = 2 ^ 23 * ulp x"
    by (simp add: ulp_def m_def)
qed

lemma abs_upper: "x \<noteq> 0 \<Longrightarrow> \<bar>x\<bar> < 2 ^ 24 * ulp x"
proof -
  assume x: "x \<noteq> 0"
  have "\<bar>x\<bar> < 2 powi (expo x + 1)" using x by (rule expo_bounds)
  also have "\<dots> \<le> 2 powi (max (expo x) (-126) + 1)" by (rule power_int_increasing) simp_all
  finally show ?thesis by (simp add: ulp_scale)
qed

lemma rnd32_upper: "0 < x \<Longrightarrow> rnd32 x \<le> 2 ^ 24 * ulp x"
proof -
  assume x: "0 < x"
  then have "x / ulp x \<le> of_int (2 ^ 24)"
    using abs_upper [of x] ulp_pos [of x] by (simp add: pos_divide_le_eq)
  then have "rne (x / ulp x) \<le> rne (of_int (2 ^ 24))" by (rule rne_mono)
  then have "rne (x / ulp x) \<le> 2 ^ 24" by (simp only: rne_of_int)
  then have "(of_int (rne (x / ulp x)) :: rat) \<le> of_int (2 ^ 24)" by (simp only: of_int_le_iff)
  then show ?thesis using x ulp_pos [of x] by (simp add: rnd32_ulp)
qed

lemma rnd32_lower_neg: "x < 0 \<Longrightarrow> - (2 ^ 24 * ulp x) \<le> rnd32 x"
proof -
  assume x: "x < 0"
  then have "of_int (- (2 ^ 24)) \<le> x / ulp x"
    using abs_upper [of x] ulp_pos [of x] by (simp add: pos_le_divide_eq)
  then have "rne (of_int (- (2 ^ 24))) \<le> rne (x / ulp x)" by (rule rne_mono)
  then have "- (2 ^ 24) \<le> rne (x / ulp x)" by (simp only: rne_of_int)
  then have "(of_int (- (2 ^ 24)) :: rat) \<le> of_int (rne (x / ulp x))" by (simp only: of_int_le_iff)
  then have "- (2 ^ 24) * ulp x \<le> of_int (rne (x / ulp x)) * ulp x"
    using ulp_pos [of x] by (intro mult_right_mono) simp_all
  then show ?thesis using x by (simp add: rnd32_ulp)
qed

lemma abs_lower: "x \<noteq> 0 \<Longrightarrow> - 126 \<le> expo x \<Longrightarrow> 2 ^ 23 * ulp x \<le> \<bar>x\<bar>"
proof -
  assume x: "x \<noteq> 0" and e: "- 126 \<le> expo x"
  have "2 powi (expo x) \<le> \<bar>x\<bar>" using x by (rule expo_bounds)
  moreover have "max (expo x) (-126) = expo x" using e by simp
  ultimately show ?thesis using ulp_scale' [of x] by simp
qed

lemma rnd32_lower: "0 < x \<Longrightarrow> - 126 \<le> expo x \<Longrightarrow> 2 ^ 23 * ulp x \<le> rnd32 x"
proof -
  assume x: "0 < x" and e: "- 126 \<le> expo x"
  then have "of_int (2 ^ 23) \<le> x / ulp x"
    using abs_lower [of x] ulp_pos [of x] by (simp add: pos_le_divide_eq)
  then have "rne (of_int (2 ^ 23)) \<le> rne (x / ulp x)" by (rule rne_mono)
  then have "2 ^ 23 \<le> rne (x / ulp x)" by (simp only: rne_of_int)
  then have "(of_int (2 ^ 23) :: rat) \<le> of_int (rne (x / ulp x))" by (simp only: of_int_le_iff)
  then have "2 ^ 23 * ulp x \<le> of_int (rne (x / ulp x)) * ulp x"
    using ulp_pos [of x] by (intro mult_right_mono) simp_all
  then show ?thesis using x by (simp add: rnd32_ulp)
qed

lemma rnd32_upper_neg: "x < 0 \<Longrightarrow> - 126 \<le> expo x \<Longrightarrow> rnd32 x \<le> - (2 ^ 23 * ulp x)"
proof -
  assume x: "x < 0" and e: "- 126 \<le> expo x"
  then have "x / ulp x \<le> of_int (- (2 ^ 23))"
    using abs_lower [of x] ulp_pos [of x] by (simp add: pos_divide_le_eq)
  then have "rne (x / ulp x) \<le> rne (of_int (- (2 ^ 23)))" by (rule rne_mono)
  then have "rne (x / ulp x) \<le> - (2 ^ 23)" by (simp only: rne_of_int)
  then have "(of_int (rne (x / ulp x)) :: rat) \<le> of_int (- (2 ^ 23))" by (simp only: of_int_le_iff)
  then have "of_int (rne (x / ulp x)) * ulp x \<le> - (2 ^ 23) * ulp x"
    using ulp_pos [of x] by (intro mult_right_mono) simp_all
  then show ?thesis using x by (simp add: rnd32_ulp)
qed

lemma ulp_mono:
  assumes "x \<noteq> 0" "\<bar>x\<bar> \<le> \<bar>y\<bar>"
  shows "ulp x = ulp y \<or> (2 * ulp x \<le> ulp y \<and> - 126 \<le> expo y)"
proof -
  have le: "expo x \<le> expo y" using assms by (rule expo_mono)
  show ?thesis
  proof (cases "max (expo x) (-126) = max (expo y) (-126)")
    case True
    then show ?thesis by (simp add: ulp_def)
  next
    case False
    with le have lt: "max (expo x) (-126) + 1 \<le> max (expo y) (-126)" and e: "- 126 \<le> expo y"
      by auto
    have "2 * ulp x = 2 powi (max (expo x) (-126) + 1 - 23)"
      by (simp add: ulp_def power_int_add power_int_diff)
    also have "\<dots> \<le> 2 powi (max (expo y) (-126) - 23)"
      using lt by (intro power_int_increasing) simp_all
    finally show ?thesis using e by (simp add: ulp_def)
  qed
qed

lemma rnd32_same_ulp:
  assumes "x \<le> y" "x \<noteq> 0" "y \<noteq> 0" "ulp x = ulp y"
  shows "rnd32 x \<le> rnd32 y"
proof -
  have "x / ulp y \<le> y / ulp y" using assms(1) ulp_pos [of y] by (simp add: divide_right_mono)
  then have "rne (x / ulp y) \<le> rne (y / ulp y)" by (rule rne_mono)
  then have "(of_int (rne (x / ulp y)) :: rat) \<le> of_int (rne (y / ulp y))" by (simp only: of_int_le_iff)
  then have "of_int (rne (x / ulp y)) * ulp y \<le> of_int (rne (y / ulp y)) * ulp y"
    using ulp_pos [of y] by (intro mult_right_mono) simp_all
  then show ?thesis using assms by (simp add: rnd32_ulp)
qed

lemma rnd32_mono:
  assumes "x \<le> y"
  shows "rnd32 x \<le> rnd32 y"
proof -
  consider "x \<le> 0 \<and> 0 \<le> y" | "0 < x" | "y < 0" using assms by linarith
  then show ?thesis
  proof cases
    case 1
    then show ?thesis using rnd32_nonpos [of x] rnd32_nonneg [of y] by linarith
  next
    case 2
    then have y: "0 < y" and a: "\<bar>x\<bar> \<le> \<bar>y\<bar>" using assms by simp_all
    have "ulp x = ulp y \<or> (2 * ulp x \<le> ulp y \<and> - 126 \<le> expo y)"
      using ulp_mono [OF _ a] 2 by simp
    then show ?thesis
    proof (elim disjE)
      assume "ulp x = ulp y"
      then show ?thesis using assms 2 y by (intro rnd32_same_ulp) simp_all
    next
      assume h: "2 * ulp x \<le> ulp y \<and> - 126 \<le> expo y"
      have "rnd32 x \<le> 2 ^ 24 * ulp x" using 2 by (rule rnd32_upper)
      also have "\<dots> = 2 ^ 23 * (2 * ulp x)" by simp
      also have "\<dots> \<le> 2 ^ 23 * ulp y" using h by (intro mult_left_mono) simp_all
      also have "\<dots> \<le> rnd32 y" using y h by (intro rnd32_lower) simp_all
      finally show ?thesis .
    qed
  next
    case 3
    then have x: "x < 0" and a: "\<bar>y\<bar> \<le> \<bar>x\<bar>" using assms by simp_all
    have "ulp y = ulp x \<or> (2 * ulp y \<le> ulp x \<and> - 126 \<le> expo x)"
      using ulp_mono [OF _ a] 3 by simp
    then show ?thesis
    proof (elim disjE)
      assume "ulp y = ulp x"
      then show ?thesis using assms 3 x by (intro rnd32_same_ulp) simp_all
    next
      assume h: "2 * ulp y \<le> ulp x \<and> - 126 \<le> expo x"
      have "rnd32 x \<le> - (2 ^ 23 * ulp x)" using x h by (intro rnd32_upper_neg) simp_all
      also have "\<dots> \<le> - (2 ^ 23 * (2 * ulp y))" using h by simp
      also have "\<dots> = - (2 ^ 24 * ulp y)" by simp
      also have "\<dots> \<le> rnd32 y" using 3 by (rule rnd32_lower_neg)
      finally show ?thesis .
    qed
  qed
qed



text \<open>
  Some values of the rounding: \<^verbatim>\<open>0.1f\<close>; the first integer that is not a binary32 number,
  a tie that goes to the even neighbour; the next one, a tie that goes up.
\<close>

lemma rnd32_examples:
  "rnd32 (1/10) = 13421773 / 134217728" "rnd32 16777217 = 16777216"
  "rnd32 16777219 = 16777220" "rnd32 (- (1/3)) = - (11184811 / 33554432)"
  by code_simp+

lemma rnd32_0: "rnd32 0 = 0"
  by (simp add: rnd32_def)

lemma rnd32_1: "rnd32 1 = 1"
  by code_simp

lemma float_of_int_nonneg: "0 \<le> r \<Longrightarrow> 0 \<le> float_of_int r"
  unfolding float_of_int_def by (rule rnd32_nonneg) simp

lemma float_of_int_mono: "r \<le> m \<Longrightarrow> float_of_int r \<le> float_of_int m"
  unfolding float_of_int_def by (rule rnd32_mono) simp

lemma float_of_int_pos: "1 \<le> m \<Longrightarrow> 1 \<le> float_of_int m"
  using float_of_int_mono [of 1 m] by (simp add: float_of_int_def rnd32_1)

lemma unit_ratio:
  assumes "0 \<le> r" "r \<le> m" "1 \<le> m"
  shows "0 \<le> fdiv (float_of_int r) (float_of_int m)"
    and "fdiv (float_of_int r) (float_of_int m) \<le> 1"
proof -
  have a: "0 \<le> float_of_int r" using assms(1) by (rule float_of_int_nonneg)
  have b: "float_of_int r \<le> float_of_int m" using assms(2) by (rule float_of_int_mono)
  have c: "1 \<le> float_of_int m" using assms(3) by (rule float_of_int_pos)
  have "0 \<le> float_of_int r / float_of_int m" using a c by simp
  then show "0 \<le> fdiv (float_of_int r) (float_of_int m)"
    unfolding fdiv_def by (rule rnd32_nonneg)
  have "float_of_int r / float_of_int m \<le> 1" using b c by simp
  then have "rnd32 (float_of_int r / float_of_int m) \<le> rnd32 1" by (rule rnd32_mono)
  then show "fdiv (float_of_int r) (float_of_int m) \<le> 1" by (simp add: fdiv_def rnd32_1)
qed

lemma scaled_bounds:
  assumes "0 \<le> q" "q \<le> 1" "0 \<le> d"
  shows "rnd32 mn \<le> fadd (fmul q d) mn" and "fadd (fmul q d) mn \<le> rnd32 (rnd32 d + mn)"
proof -
  have "0 \<le> q * d" using assms by simp
  then have lo: "0 \<le> fmul q d" unfolding fmul_def by (rule rnd32_nonneg)
  have "q * d \<le> d" using assms by (simp add: mult_left_le_one_le)
  then have hi: "fmul q d \<le> rnd32 d" unfolding fmul_def by (rule rnd32_mono)
  show "rnd32 mn \<le> fadd (fmul q d) mn"
    unfolding fadd_def using lo by (intro rnd32_mono) simp
  show "fadd (fmul q d) mn \<le> rnd32 (rnd32 d + mn)"
    unfolding fadd_def using hi by (intro rnd32_mono) simp
qed

lemma RAND_MAX_pos: "1 \<le> RAND_MAX"
  by (simp add: RAND_MAX_def)

lemma RandomRange_value:
  "fst (RandomRange mn mx g) =
     fadd (fmul (fdiv (float_of_int (rand_seq g 0)) (float_of_int RAND_MAX)) (fsub mx mn)) mn"
  by (simp add: RandomRange_def rand_def)

lemma RandomRange_rand_in_range:
  "rand_in_range g \<Longrightarrow> rand_in_range (snd (RandomRange mn mx g))"
  by (simp add: RandomRange_def rand_def rand_in_range_def)

lemma RandomRange_bounds:
  assumes "rand_in_range g" "0 \<le> fsub mx mn"
  shows "rnd32 mn \<le> fst (RandomRange mn mx g)"
    and "fst (RandomRange mn mx g) \<le> rnd32 (rnd32 (fsub mx mn) + mn)"
proof -
  have r: "0 \<le> rand_seq g 0" "rand_seq g 0 \<le> RAND_MAX"
    using assms(1) by (simp_all add: rand_in_range_def)
  note q = unit_ratio [OF r RAND_MAX_pos]
  show "rnd32 mn \<le> fst (RandomRange mn mx g)"
    unfolding RandomRange_value using q assms(2) by (rule scaled_bounds)
  show "fst (RandomRange mn mx g) \<le> rnd32 (rnd32 (fsub mx mn) + mn)"
    unfolding RandomRange_value using q assms(2) by (rule scaled_bounds)
qed


section \<open>Light generation: bounds of the random fields\<close>

lemma RandomRange_between:
  assumes "rand_in_range g" "0 \<le> fsub mx mn" "lo \<le> rnd32 mn"
    "rnd32 (rnd32 (fsub mx mn) + mn) \<le> hi"
  shows "lo \<le> fst (RandomRange mn mx g) \<and> fst (RandomRange mn mx g) \<le> hi"
  using RandomRange_bounds [OF assms(1,2)] assms(3,4) by linarith

lemma RandomRange_within:
  assumes "rand_in_range g"
  shows "-10 \<le> fst (RandomRange (-10) 10 g) \<and> fst (RandomRange (-10) 10 g) \<le> 10"
    and "-5 \<le> fst (RandomRange (-5) 5 g) \<and> fst (RandomRange (-5) 5 g) \<le> 5"
    and "0 \<le> fst (RandomRange 0 1 g) \<and> fst (RandomRange 0 1 g) \<le> 1"
    and "5 \<le> fst (RandomRange 5 10 g) \<and> fst (RandomRange 5 10 g) \<le> 10"
    and "1/10 \<le> fst (RandomRange (f32 (1/10)) 3 g) \<and> fst (RandomRange (f32 (1/10)) 3 g) \<le> 3"
  by (rule RandomRange_between [OF assms]; code_simp)+

lemma random_point_in_bounds:
  assumes "rand_in_range g"
  shows "point_light_in_bounds (fst (random_point g))"
    and "rand_in_range (snd (random_point g))"
proof -
  define g1 where "g1 = snd (RandomRange (-10) 10 g)"
  define g2 where "g2 = snd (RandomRange (-5) 5 g1)"
  define g3 where "g3 = snd (RandomRange (-10) 10 g2)"
  define g4 where "g4 = snd (RandomRange 0 1 g3)"
  define g5 where "g5 = snd (RandomRange 0 1 g4)"
  define g6 where "g6 = snd (RandomRange 0 1 g5)"
  define g7 where "g7 = snd (RandomRange 5 10 g6)"
  define g8 where "g8 = snd (RandomRange (f32 (1/10)) 3 g7)"
  have r1: "rand_in_range g1" unfolding g1_def using assms by (rule RandomRange_rand_in_range)
  have r2: "rand_in_range g2" unfolding g2_def using r1 by (rule RandomRange_rand_in_range)
  have r3: "rand_in_range g3" unfolding g3_def using r2 by (rule RandomRange_rand_in_range)
  have r4: "rand_in_range g4" unfolding g4_def using r3 by (rule RandomRange_rand_in_range)
  have r5: "rand_in_range g5" unfolding g5_def using r4 by (rule RandomRange_rand_in_range)
  have r6: "rand_in_range g6" unfolding g6_def using r5 by (rule RandomRange_rand_in_range)
  have r7: "rand_in_range g7" unfolding g7_def using r6 by (rule RandomRange_rand_in_range)
  have r8: "rand_in_range g8" unfolding g8_def using r7 by (rule RandomRange_rand_in_range)
  have eq: "random_point g =
     ((Light_zero LIGHT_TYPE_POINT)
        \<lparr>Position := XMFLOAT3 (fst (RandomRange (-10) 10 g)) (fst (RandomRange (-5) 5 g1))
            (fst (RandomRange (-10) 10 g2)),
         Color := XMFLOAT3 (fst (RandomRange 0 1 g3)) (fst (RandomRange 0 1 g4))
            (fst (RandomRange 0 1 g5)),
         Range := fst (RandomRange 5 10 g6),
         Intensity := fst (RandomRange (f32 (1/10)) 3 g7)\<rparr>, g8)"
    unfolding random_point_def g1_def g2_def g3_def g4_def g5_def g6_def g7_def g8_def
    by (simp add: split_beta Let_def)
  show "rand_in_range (snd (random_point g))" using r8 by (simp add: eq)
  show "point_light_in_bounds (fst (random_point g))"
    unfolding eq point_light_in_bounds_def
    using RandomRange_within(1) [OF assms] RandomRange_within(2) [OF r1]
      RandomRange_within(1) [OF r2] RandomRange_within(3) [OF r3]
      RandomRange_within(3) [OF r4] RandomRange_within(3) [OF r5]
      RandomRange_within(4) [OF r6] RandomRange_within(5) [OF r7]
    by simp
qed

lemma push_point_rand_in_range:
  "rand_in_range g \<Longrightarrow> rand_in_range (push_point g)"
  using random_point_in_bounds(2) [of g]
  by (simp add: push_point_def split_beta rand_in_range_def)

lemma GenerateLights_loop_points:
  "rand_in_range g \<Longrightarrow>
   list_all point_light_in_bounds (drop (length (lights g)) (lights (GenerateLights_loop g)))"
proof (induction g rule: GenerateLights_loop.induct)
  case (1 g)
  show ?case
  proof (cases "length (lights g) < lightCount g")
    case True
    have r: "rand_in_range (push_point g)" using "1.prems" by (rule push_point_rand_in_range)
    obtain ys where ys: "lights (GenerateLights_loop (push_point g)) = lights (push_point g) @ ys"
      using GenerateLights_loop_append by blast
    have "list_all point_light_in_bounds ys"
      using "1.IH" [OF True r] by (simp add: ys)
    moreover have "point_light_in_bounds (fst (random_point g))"
      using "1.prems" by (rule random_point_in_bounds)
    moreover have "lights (GenerateLights_loop g) = lights g @ fst (random_point g) # ys"
      using True ys by (subst GenerateLights_loop.simps) (simp add: push_point_lights)
    ultimately show ?thesis by simp
  next
    case False
    then show ?thesis by (subst GenerateLights_loop.simps) simp
  qed
qed

lemma GenerateLights_points_are_appended:
  "filter is_point (lights (GenerateLights g)) = drop 3 (lights (GenerateLights g))"
proof -
  let ?ls = "lights (GenerateLights g)"
  have "map Type (drop 3 ?ls) = replicate (lightCount g - 3) LIGHT_TYPE_POINT"
    by (simp add: GenerateLights_types flip: drop_map)
  then have "\<forall>l \<in> set (drop 3 ?ls). is_point l"
    unfolding is_point_def
    by (metis (no_types, lifting) imageI in_set_replicate list.set_map)
  then have a: "filter is_point (drop 3 ?ls) = drop 3 ?ls" by simp
  have b: "filter is_point (take 3 ?ls) = []"
    by (simp add: GenerateLights_directional is_point_def dir1_def dir2_def dir3_def
        Light_zero_def)
  have "filter is_point ?ls = filter is_point (take 3 ?ls @ drop 3 ?ls)" by simp
  also have "\<dots> = drop 3 ?ls" using a b by (simp only: filter_append) simp
  finally show ?thesis .
qed

text \<open>
  C2: every Point light appended by \<^verbatim>\<open>GenerateLights\<close> has \<open>position.x\<close> and \<open>position.z\<close> in
  \<open>[-10, 10]\<close>, \<open>position.y\<close> in \<open>[-5, 5]\<close>, each color channel in \<open>[0, 1]\<close>, its range in
  \<open>[5, 10]\<close> and its intensity in \<open>[0.1, 3.0]\<close>, whatever values \<^verbatim>\<open>rand()\<close> returns. The
  appended lights are those from index 3 on, and they are the Point lights of the result.
\<close>

theorem GenerateLights_point_bounds:
  assumes "rand_in_range g"
  shows "list_all point_light_in_bounds (drop 3 (lights (GenerateLights g))) \<and>
         list_all point_light_in_bounds (filter is_point (lights (GenerateLights g)))"
proof -
  have "rand_in_range (g\<lparr>lights := [dir1, dir2, dir3]\<rparr>)"
    using assms by (simp add: rand_in_range_def)
  then have "list_all point_light_in_bounds (drop 3 (lights (GenerateLights g)))"
    using GenerateLights_loop_points [of "g\<lparr>lights := [dir1, dir2, dir3]\<rparr>"]
    by (simp add: GenerateLights_def numeral_3_eq_3)
  then show ?thesis by (simp add: GenerateLights_points_are_appended)
qed

theorem GenerateLights_point_bounds_witness:
  "rand_in_range (game_ctor\<lparr>lightCount := 32\<rparr>) \<and>
   list_all point_light_in_bounds (drop 3 (lights (GenerateLights (game_ctor\<lparr>lightCount := 32\<rparr>)))) \<and>
   list_all point_light_in_bounds
     (filter is_point (lights (GenerateLights (game_ctor\<lparr>lightCount := 32\<rparr>))))"
proof -
  have "n * 7919 mod 32768 < (32768::nat)" for n by simp
  then have "n * 7919 mod 32768 \<le> (32767::nat)" for n by (simp flip: less_Suc_eq_le)
  then have h: "rand_in_range (game_ctor\<lparr>lightCount := 32\<rparr>)"
    by (simp add: rand_in_range_def game_ctor_def RAND_MAX_def)
  show ?thesis using h GenerateLights_point_bounds [OF h] by simp
qed


section \<open>Drawing: the calls of each pass\<close>

lemma emit_fields [simp]:
  "camera (emit ks g) = camera g" "sky (emit ks g) = sky g"
  "spriteBatch (emit ks g) = spriteBatch g" "entities (emit ks g) = entities g"
  "lights (emit ks g) = lights g" "lightCount (emit ks g) = lightCount g"
  "lightMesh (emit ks g) = lightMesh g" "lightVS (emit ks g) = lightVS g"
  "lightPS (emit ks g) = lightPS g" "width (emit ks g) = width g"
  "height (emit ks g) = height g" "rand_seq (emit ks g) = rand_seq g"
  by (simp_all add: emit_def)

lemma calls_foldl_issue: "calls (foldl issue c ks) = calls c @ ks"
  by (induction ks arbitrary: c) (simp_all add: issue_def)

lemma calls_emit: "calls (ctx (emit ks g)) = calls (ctx g) @ ks"
  by (simp add: emit_def calls_foldl_issue)

lemma emit_emit: "emit ks (emit ks' g) = emit (ks' @ ks) g"
  by (simp add: emit_def)

lemma emit_Nil: "emit [] g = g"
  by (simp add: emit_def)

lemma frame_calls_emit: "frame_calls g (emit ks g) = ks"
  by (simp add: frame_calls_def calls_emit)

lemma entity_calls_emit [simp]: "entity_calls (emit ks g) = entity_calls g"
  by (simp add: fun_eq_iff entity_calls_def frame_constants_def)

lemma marker_calls_emit [simp]: "marker_calls (emit ks g) = marker_calls g"
  by (simp add: fun_eq_iff marker_calls_def)

lemma draw_entity_ok:
  assumes "camera g = Some cam" "lights g \<noteq> []" "lightCount g \<le> length (lights g)"
  shows "draw_entity ge g = Inr (emit (entity_calls g cam ge) g)"
  using assms by (simp add: draw_entity_def entity_calls_def frame_constants_def Let_def)

lemma draw_entities_ok:
  assumes "camera g = Some cam" "lights g \<noteq> []" "lightCount g \<le> length (lights g)"
  shows "draw_entities es g = Inr (emit (concat (map (entity_calls g cam) es)) g)"
  using assms
proof (induction es arbitrary: g)
  case Nil
  then show ?case by (simp add: emit_Nil)
next
  case (Cons ge es)
  have "draw_entities es (emit (entity_calls g cam ge) g)
      = Inr (emit (concat (map (entity_calls (emit (entity_calls g cam ge) g) cam) es))
              (emit (entity_calls g cam ge) g))"
    using Cons.prems by (intro Cons.IH) simp_all
  then show ?case using Cons.prems
    by (simp add: draw_entity_ok emit_emit)
qed

lemma draw_light_eq: "draw_light l g = emit (marker_calls g l) g"
  by (simp add: draw_light_def marker_calls_def marker_world_def marker_color_def Let_def)

lemma DrawPointLights_loop_ok:
  assumes "lightCount g \<le> length (lights g)" "i \<le> lightCount g"
  shows "DrawPointLights_loop i g =
     Inr (emit (concat (map (marker_calls g)
       (filter is_point (drop i (take (lightCount g) (lights g)))))) g)"
  using assms
proof (induction i g rule: DrawPointLights_loop.induct)
  case (1 i g)
  show ?case
  proof (cases "i < lightCount g")
    case False
    then show ?thesis using "1.prems"
      by (subst DrawPointLights_loop.simps) (simp add: emit_Nil)
  next
    case True
    then have len: "i < length (lights g)" using "1.prems" by simp
    have nle: "\<not> length (lights g) \<le> i" using len by simp
    have dr: "drop i (take (lightCount g) (lights g)) =
        lights g ! i # drop (Suc i) (take (lightCount g) (lights g))"
      using True len by (simp add: Cons_nth_drop_Suc [symmetric])
    show ?thesis
    proof (cases "Type (lights g ! i) = LIGHT_TYPE_POINT")
      case False
      have "DrawPointLights_loop (i + 1) g =
          Inr (emit (concat (map (marker_calls g)
            (filter is_point (drop (i + 1) (take (lightCount g) (lights g)))))) g)"
        using True nle False "1.prems" by (intro "1.IH"(1)) simp_all
      then show ?thesis using True nle False
        by (subst DrawPointLights_loop.simps) (simp add: dr is_point_def)
    next
      case pt: True
      let ?g' = "draw_light (lights g ! i) g"
      have "DrawPointLights_loop (i + 1) ?g' =
          Inr (emit (concat (map (marker_calls ?g')
            (filter is_point (drop (i + 1) (take (lightCount ?g') (lights ?g')))))) ?g')"
        using True nle pt "1.prems" by (intro "1.IH"(2)) (simp_all add: draw_light_eq)
      then show ?thesis using True nle pt
        by (subst DrawPointLights_loop.simps)
           (simp add: dr is_point_def draw_light_eq emit_emit)
    qed
  qed
qed

lemma DrawPointLights_ok:
  assumes "camera g = Some cam" "lightCount g \<le> length (lights g)"
  shows "DrawPointLights g = Inr (emit (marker_pass g cam) g)"
  using assms
  by (simp add: DrawPointLights_def Let_def DrawPointLights_loop_ok emit_emit
      marker_pass_def marker_setup_def marked_lights_def)

lemma DrawUI_eq: "DrawUI g = emit (overlay_calls g) g"
  by (simp add: DrawUI_def Let_def emit_emit overlay_calls_def overlay_text_def)

lemma Draw_ok:
  assumes "camera g = Some cam" "lights g \<noteq> []" "lightCount g \<le> length (lights g)"
  shows "Draw g = Inr (emit (frame_trace g cam) g)"
  using assms
  by (simp add: Draw_def Let_def draw_entities_ok DrawPointLights_ok DrawUI_eq emit_emit
      frame_trace_def clear_calls_def finish_calls_def entity_pass_def marker_pass_def
      marker_setup_def marked_lights_def overlay_calls_def)

section \<open>The passes of a frame\<close>

lemma map_filter_append: "List.map_filter f (xs @ ys) = List.map_filter f xs @ List.map_filter f ys"
  by (simp add: List.map_filter_def)

lemma passes_append: "passes (xs @ ys) = passes xs @ passes ys"
  by (simp add: passes_def map_filter_append)

lemma passes_Cons: "passes (k # ks) = (case pass_of k of None \<Rightarrow> passes ks | Some p \<Rightarrow> p # passes ks)"
  by (simp add: passes_def List.map_filter_def split: option.splits)

lemma passes_Nil: "passes [] = []"
  by (simp add: passes_def List.map_filter_def)

lemma passes_entity_calls: "passes (entity_calls g cam ge) = [EntityPass]"
  by (simp add: entity_calls_def frame_constants_def passes_Cons passes_Nil)

lemma passes_entity_pass: "passes (concat (map (entity_calls g cam) es)) = replicate (length es) EntityPass"
  by (induction es) (simp_all add: passes_append passes_entity_calls passes_Nil)

lemma passes_marker_calls: "passes (marker_calls g l) = [LightMarkerPass]"
  by (simp add: marker_calls_def passes_Cons passes_Nil)

lemma passes_markers: "passes (concat (map (marker_calls g) ls)) = replicate (length ls) LightMarkerPass"
  by (induction ls) (simp_all add: passes_append passes_marker_calls passes_Nil)

lemma passes_marker_pass: "passes (marker_pass g cam) = replicate (length (marked_lights g)) LightMarkerPass"
  by (simp add: marker_pass_def passes_append passes_markers marker_setup_def passes_Cons passes_Nil)

lemma replicate_9: "replicate 9 x = [x, x, x, x, x, x, x, x, x]"
  by (simp add: eval_nat_numeral)

lemma passes_overlay: "passes (overlay_calls g) = replicate 9 OverlayPass"
  unfolding replicate_9
  by (simp add: overlay_calls_def overlay_text_def passes_Cons passes_Nil passes_append)

lemma passes_frame_trace:
  "passes (frame_trace g cam) =
     [ClearPass, ClearPass] @ replicate (length (entities g)) EntityPass
     @ replicate (length (marked_lights g)) LightMarkerPass @ [EnvironmentPass]
     @ replicate 9 OverlayPass @ [DebugUIPass, PresentPass]"
  by (simp add: frame_trace_def passes_append passes_entity_pass passes_marker_pass
      passes_overlay entity_pass_def clear_calls_def finish_calls_def passes_Cons passes_Nil)

text \<open>
  C4: the light-marker pass issues one sphere draw for exactly the lights among the first
  \<open>lightCount\<close> entries that are tagged Point, in collection order, skipping Directional
  and Spot lights. Each draw uses the world matrix built from the uniform scale
  \<open>range / 20\<close>, the identity rotation and the light's position, and pushes the solid
  color \<open>color * intensity\<close>, component by component (\<open>marker_calls\<close>).
\<close>

theorem DrawPointLights_markers:
  assumes "camera g = Some cam" "lightCount g \<le> length (lights g)"
  shows "DrawPointLights g =
           Inr (emit (marker_setup g cam
                  @ concat (map (marker_calls g)
                      (filter is_point (take (lightCount g) (lights g))))) g) \<and>
         passes (marker_pass g cam) =
           replicate (length (filter is_point (take (lightCount g) (lights g)))) LightMarkerPass"
  using DrawPointLights_ok [OF assms] passes_marker_pass [of g cam]
  by (simp add: marker_pass_def marked_lights_def)

lemma demo_consts:
  "fdiv 5 20 = 1/4" "fdiv 10 20 = 1/2" "fmul 1 2 = 2" "fmul (1/2) 2 = 1" "fmul 0 2 = 0"
  by code_simp+

theorem DrawPointLights_markers_witness:
  "camera game_demo = Some demo_camera \<and> lightCount game_demo \<le> length (lights game_demo) \<and>
   DrawPointLights game_demo =
     Inr (emit (marker_setup game_demo demo_camera
            @ concat (map (marker_calls game_demo) [demo_point, demo_point\<lparr>Range := 10\<rparr>]))
          game_demo) \<and>
   marker_world demo_point =
     XMMatrixMultiply (XMMatrixMultiply (XMMatrixScaling (1/4) (1/4) (1/4)) XMMatrixIdentity)
       (XMMatrixTranslation 1 2 3) \<and>
   marker_color demo_point = XMFLOAT3 2 1 0"
proof -
  have c: "camera game_demo = Some demo_camera"
    and l: "lightCount game_demo \<le> length (lights game_demo)"
    by (simp_all add: game_demo_def game_ctor_def)
  have m: "filter is_point (take (lightCount game_demo) (lights game_demo)) =
      [demo_point, demo_point\<lparr>Range := 10\<rparr>]"
    by (simp add: game_demo_def game_ctor_def is_point_def dir1_def dir2_def dir3_def
        demo_point_def Light_zero_def)
  show ?thesis
    using c l DrawPointLights_markers [OF c l]
    by (simp add: m marker_world_def marker_color_def demo_point_def demo_consts)
qed

lemma draw_entities_completes:
  assumes "camera g = Some cam" "es = [] \<or> lights g \<noteq> []" "lightCount g \<le> length (lights g)"
  shows "draw_entities es g = Inr (emit (concat (map (entity_calls g cam) es)) g)"
proof (cases es)
  case Nil
  then show ?thesis by (simp add: emit_Nil)
next
  case (Cons ge ges)
  then have "lights g \<noteq> []" using assms(2) by simp
  with assms show ?thesis by (intro draw_entities_ok)
qed

lemma Draw_completes:
  assumes "camera g = Some cam" "entities g = [] \<or> lights g \<noteq> []"
    "lightCount g \<le> length (lights g)"
  shows "Draw g = Inr (emit (frame_trace g cam) g)"
  using assms
  by (simp add: Draw_def Let_def draw_entities_completes DrawPointLights_ok DrawUI_eq emit_emit
      frame_trace_def clear_calls_def finish_calls_def entity_pass_def marker_pass_def
      marker_setup_def marked_lights_def overlay_calls_def)

lemma DrawPointLights_loop_fails:
  assumes "length (lights g) < lightCount g" "i \<le> length (lights g)"
  shows "DrawPointLights_loop i g = Inl OutOfRange"
  using assms
proof (induction i g rule: DrawPointLights_loop.induct)
  case (1 i g)
  have lt: "i < lightCount g" using "1.prems" by simp
  show ?case
  proof (cases "length (lights g) \<le> i")
    case True
    then show ?thesis using lt by (subst DrawPointLights_loop.simps) simp
  next
    case False
    show ?thesis
    proof (cases "Type (lights g ! i) = LIGHT_TYPE_POINT")
      case ntp: False
      have "DrawPointLights_loop (i + 1) g = Inl OutOfRange"
        using lt False ntp "1.prems" by (intro "1.IH"(1)) simp_all
      then show ?thesis using lt False ntp by (subst DrawPointLights_loop.simps) simp
    next
      case pt: True
      have "DrawPointLights_loop (i + 1) (draw_light (lights g ! i) g) = Inl OutOfRange"
        using lt False pt "1.prems" by (intro "1.IH"(2)) (simp_all add: draw_light_eq)
      then show ?thesis using lt False pt by (subst DrawPointLights_loop.simps) simp
    qed
  qed
qed

lemma DrawPointLights_fails:
  assumes "camera g = None \<or> length (lights g) < lightCount g"
  shows "\<exists>e. DrawPointLights g = Inl e"
proof (cases "camera g")
  case None
  then show ?thesis by (simp add: DrawPointLights_def Let_def)
next
  case (Some cam)
  then have "length (lights g) < lightCount g" using assms by simp
  then show ?thesis using Some
    by (simp add: DrawPointLights_def Let_def DrawPointLights_loop_fails)
qed

lemma draw_entity_fails:
  assumes "camera g = None \<or> length (lights g) < lightCount g \<or> lights g = []"
  shows "\<exists>e. draw_entity ge g = Inl e"
  using assms by (auto simp: draw_entity_def Let_def)

lemma Draw_fails:
  assumes "camera g = None \<or> length (lights g) < lightCount g
      \<or> (entities g \<noteq> [] \<and> lights g = [])"
  shows "\<exists>e. Draw g = Inl e"
proof (cases "entities g")
  case Nil
  let ?g1 = "emit [ClearRenderTargetView [0, 0, 0, 1], ClearDepthStencilView True True 1 0] g"
  have "camera ?g1 = None \<or> length (lights ?g1) < lightCount ?g1" using assms Nil by simp
  then obtain e where "DrawPointLights ?g1 = Inl e" using DrawPointLights_fails by blast
  then show ?thesis using Nil by (simp add: Draw_def Let_def)
next
  case (Cons ge ges)
  let ?g1 = "emit [ClearRenderTargetView [0, 0, 0, 1], ClearDepthStencilView True True 1 0] g"
  have "camera ?g1 = None \<or> length (lights ?g1) < lightCount ?g1 \<or> lights ?g1 = []"
    using assms Cons by auto
  then obtain e where "draw_entity ge ?g1 = Inl e" using draw_entity_fails by blast
  then show ?thesis using Cons by (simp add: Draw_def Let_def)
qed

lemma Draw_Inr_D:
  assumes "Draw g = Inr g'"
  shows "\<exists>cam. camera g = Some cam \<and> g' = emit (frame_trace g cam) g"
proof -
  have n: "\<not> (camera g = None \<or> length (lights g) < lightCount g
      \<or> (entities g \<noteq> [] \<and> lights g = []))"
  proof
    assume "camera g = None \<or> length (lights g) < lightCount g
      \<or> (entities g \<noteq> [] \<and> lights g = [])"
    then obtain e where "Draw g = Inl e" using Draw_fails by blast
    with assms show False by simp
  qed
  then have "camera g \<noteq> None" by simp
  then obtain cam where cam: "camera g = Some cam" by (cases "camera g") simp_all
  have "Draw g = Inr (emit (frame_trace g cam) g)"
    using n cam by (intro Draw_completes) auto
  then show ?thesis using assms cam by simp
qed

lemma demo_state:
  "camera game_demo = Some demo_camera" "lights game_demo \<noteq> []"
  "lightCount game_demo \<le> length (lights game_demo)"
  by (simp_all add: game_demo_def game_ctor_def)

lemma demo_marked: "marked_lights game_demo = [demo_point, demo_point\<lparr>Range := 10\<rparr>]"
  by (simp add: marked_lights_def game_demo_def game_ctor_def is_point_def dir1_def dir2_def
      dir3_def demo_point_def Light_zero_def)

text \<open>
  C5: a frame runs in a fixed order. \<^verbatim>\<open>Draw\<close> first clears the color target to opaque
  black and the depth-stencil target to depth 1.0, then draws the entities, then the light
  markers, then the sky, then the overlay text, then the debug UI, and presents. No draw
  precedes the clear: the two clears are the first two calls of the frame. This holds for
  every frame \<^verbatim>\<open>Draw\<close> completes, and it completes whenever there is a camera, the first
  \<open>lightCount\<close> lights exist, and \<^verbatim>\<open>&lights[0]\<close> exists if there is an entity.
\<close>

theorem Draw_order:
  "(camera g = Some cam \<and> lightCount g \<le> length (lights g)
      \<and> (entities g = [] \<or> lights g \<noteq> []) \<longrightarrow>
      Draw g = Inr (emit (frame_trace g cam) g)) \<and>
   (Draw g = Inr g' \<longrightarrow>
      take 2 (frame_calls g g') =
        [ClearRenderTargetView [0, 0, 0, 1], ClearDepthStencilView True True 1 0] \<and>
      passes (frame_calls g g') =
        [ClearPass, ClearPass] @ replicate (length (entities g)) EntityPass
        @ replicate (length (marked_lights g)) LightMarkerPass @ [EnvironmentPass]
        @ replicate 9 OverlayPass @ [DebugUIPass, PresentPass])"
proof (intro conjI impI)
  assume "camera g = Some cam \<and> lightCount g \<le> length (lights g)
      \<and> (entities g = [] \<or> lights g \<noteq> [])"
  then show "Draw g = Inr (emit (frame_trace g cam) g)" by (intro Draw_completes) auto
next
  assume d: "Draw g = Inr g'"
  then obtain c where c: "g' = emit (frame_trace g c) g" using Draw_Inr_D by blast
  show "take 2 (frame_calls g g') =
      [ClearRenderTargetView [0, 0, 0, 1], ClearDepthStencilView True True 1 0]"
    by (simp add: c frame_calls_emit frame_trace_def clear_calls_def)
  show "passes (frame_calls g g') =
      [ClearPass, ClearPass] @ replicate (length (entities g)) EntityPass
      @ replicate (length (marked_lights g)) LightMarkerPass @ [EnvironmentPass]
      @ replicate 9 OverlayPass @ [DebugUIPass, PresentPass]"
    using passes_frame_trace [of g c] by (simp add: c frame_calls_emit)
qed

theorem Draw_order_witness:
  "camera game_demo = Some demo_camera \<and> lightCount game_demo \<le> length (lights game_demo) \<and>
   lights game_demo \<noteq> [] \<and>
   Draw game_demo = Inr (emit (frame_trace game_demo demo_camera) game_demo) \<and>
   take 2 (frame_calls game_demo (emit (frame_trace game_demo demo_camera) game_demo)) =
     [ClearRenderTargetView [0, 0, 0, 1], ClearDepthStencilView True True 1 0] \<and>
   passes (frame_calls game_demo (emit (frame_trace game_demo demo_camera) game_demo)) =
     [ClearPass, ClearPass, EntityPass, EntityPass, LightMarkerPass, LightMarkerPass,
      EnvironmentPass, OverlayPass, OverlayPass, OverlayPass, OverlayPass, OverlayPass,
      OverlayPass, OverlayPass, OverlayPass, OverlayPass, DebugUIPass, PresentPass]"
proof -
  have e: "length (entities game_demo) = 2" by (simp add: game_demo_def game_ctor_def)
  have d: "Draw game_demo = Inr (emit (frame_trace game_demo demo_camera) game_demo)"
    using demo_state
      Draw_order [of game_demo demo_camera "emit (frame_trace game_demo demo_camera) game_demo"]
    by simp
  show ?thesis
    using demo_state d
      Draw_order [of game_demo demo_camera "emit (frame_trace game_demo demo_camera) game_demo"]
    by (simp add: e demo_marked replicate_9 numeral_2_eq_2)
qed

text \<open>
  C7: for each entity of the loop in \<^verbatim>\<open>Draw\<close>, the frame-scope constants pushed into the
  pixel shader of the entity's material are the light array cut at \<open>lightCount\<close> records,
  the light count, the camera's world position and the specular mip-level count of the
  sky. The push is made once per entity, inside the loop.
\<close>

theorem Draw_frame_constants:
  assumes "camera g = Some cam" "lights g \<noteq> []" "lightCount g \<le> length (lights g)"
  shows "Draw g =
           Inr (emit (clear_calls
                  @ concat (map (\<lambda>ge. frame_constants g cam (pixelShader (material ge))
                                    @ [CopyBufferData (pixelShader (material ge)) ''perFrame'',
                                       Entity_Draw ge cam])
                             (entities g))
                  @ marker_pass g cam @ [Sky_Draw cam] @ overlay_calls g @ finish_calls) g) \<and>
         frame_constants g cam ps =
           [SetData ps ''lights'' (take (lightCount g) (lights g)),
            SetInt ps ''lightCount'' (int (lightCount g)),
            SetFloat3 ps ''cameraPosition'' (position cam),
            SetInt ps ''SpecIBLTotalMipLevels'' (specularMipLevels (sky g))]"
proof -
  have "entity_calls g cam = (\<lambda>ge. frame_constants g cam (pixelShader (material ge))
      @ [CopyBufferData (pixelShader (material ge)) ''perFrame'', Entity_Draw ge cam])"
    by (simp add: fun_eq_iff entity_calls_def)
  then show ?thesis
    using Draw_ok [OF assms]
    by (simp add: frame_trace_def entity_pass_def frame_constants_def)
qed

theorem Draw_frame_constants_witness:
  "camera game_demo = Some demo_camera \<and> lights game_demo \<noteq> [] \<and>
   lightCount game_demo \<le> length (lights game_demo) \<and>
   Draw game_demo =
     Inr (emit (clear_calls
            @ (frame_constants game_demo demo_camera ''PixelShaderPBR.cso''
               @ [CopyBufferData ''PixelShaderPBR.cso'' ''perFrame'',
                  Entity_Draw demo_entity demo_camera])
            @ (frame_constants game_demo demo_camera ''PixelShaderPBR.cso''
               @ [CopyBufferData ''PixelShaderPBR.cso'' ''perFrame'',
                  Entity_Draw demo_entity demo_camera])
            @ marker_pass game_demo demo_camera @ [Sky_Draw demo_camera]
            @ overlay_calls game_demo @ finish_calls) game_demo) \<and>
   frame_constants game_demo demo_camera ''PixelShaderPBR.cso'' =
     [SetData ''PixelShaderPBR.cso'' ''lights''
        [dir1, dir2, dir3, demo_point, demo_point\<lparr>Range := 10\<rparr>],
      SetInt ''PixelShaderPBR.cso'' ''lightCount'' 5,
      SetFloat3 ''PixelShaderPBR.cso'' ''cameraPosition'' (XMFLOAT3 0 0 (-10)),
      SetInt ''PixelShaderPBR.cso'' ''SpecIBLTotalMipLevels'' 6]"
proof -
  have e: "entities game_demo = [demo_entity, demo_entity]"
    "pixelShader (material demo_entity) = ''PixelShaderPBR.cso''"
    by (simp_all add: game_demo_def game_ctor_def demo_entity_def)
  have f: "lights game_demo = [dir1, dir2, dir3, demo_point, demo_point\<lparr>Range := 10\<rparr>]"
    "lightCount game_demo = 5" "position demo_camera = XMFLOAT3 0 0 (-10)"
    "specularMipLevels (sky game_demo) = 6"
    by (simp_all add: game_demo_def game_ctor_def demo_camera_def)
  show ?thesis
    using demo_state Draw_frame_constants [OF demo_state, of "''PixelShaderPBR.cso''"]
    by (simp add: e f)
qed

text \<open>
  C8: a resize before any camera exists skips the projection update: nothing but the base
  class's resize happens, and no camera is touched. Once a camera exists, the same resize
  sets its aspect ratio to the float quotient of width and height, \<open>1280 / 720\<close> for a
  1280x720 surface.
\<close>

lemma float_of_int_nonzero: "0 < n \<Longrightarrow> float_of_int (int n) \<noteq> 0"
  using float_of_int_pos [of "int n"] by simp

theorem OnResize_camera_guard:
  "(camera g = None \<longrightarrow> OnResize g = emit [DXCore_OnResize] g \<and> camera (OnResize g) = None) \<and>
   (camera g = Some cam \<longrightarrow>
      camera (OnResize g) =
        Some (cam\<lparr>aspectRatio :=
          fdiv_checked (float_of_int (int (width g))) (float_of_int (int (height g)))\<rparr>)) \<and>
   (0 < height g \<longrightarrow>
      fdiv_checked (float_of_int (int (width g))) (float_of_int (int (height g))) =
        Finite (fdiv (float_of_int (int (width g))) (float_of_int (int (height g)))))"
  by (simp add: OnResize_def Let_def UpdateProjectionMatrix_def fdiv_checked_def
      float_of_int_nonzero)

theorem OnResize_camera_guard_witness:
  "camera game_ctor = None \<and> width game_ctor = 1280 \<and> height game_ctor = 720 \<and>
   OnResize game_ctor = emit [DXCore_OnResize] game_ctor \<and>
   camera (OnResize game_ctor) = None \<and>
   camera game_demo = Some demo_camera \<and> width game_demo = 1280 \<and> height game_demo = 720 \<and>
   camera (OnResize game_demo) = Some (demo_camera\<lparr>aspectRatio := Finite (fdiv 1280 720)\<rparr>) \<and>
   fdiv 1280 720 = 14913081 / 8388608"
proof -
  have a: "camera game_ctor = None" "width game_ctor = 1280" "height game_ctor = 720"
    "camera game_demo = Some demo_camera" "width game_demo = 1280" "height game_demo = 720"
    by (simp_all add: game_demo_def game_ctor_def)
  have b: "float_of_int 1280 = 1280" "float_of_int 720 = 720" "fdiv 1280 720 = 14913081 / 8388608"
    by code_simp+
  show ?thesis
    using OnResize_camera_guard [of game_ctor demo_camera]
      OnResize_camera_guard [of game_demo demo_camera]
    by (simp add: a b)
qed

text \<open>
  C9: when \<^verbatim>\<open>DrawUI\<close> returns, the blend state and the depth-stencil state of the context
  are the defaults again, whatever they were before and whatever the sprite batch set: the
  two resets are the last calls of the pass, right after the batch is flushed, and at
  that point the context still held the states of the batch.
\<close>

theorem DrawUI_restores_state:
  "blendState (ctx (DrawUI g)) = None \<and> depthStencilState (ctx (DrawUI g)) = None \<and>
   frame_calls g (DrawUI g) =
     [SpriteBatch_Begin] @ overlay_text
     @ [SpriteBatch_End (spriteBatch g), OMSetBlendState None 0xFFFFFFFF,
        OMSetDepthStencilState None 0] \<and>
   blendState (ctx (emit ([SpriteBatch_Begin] @ overlay_text
       @ [SpriteBatch_End (spriteBatch g)]) g)) = Some (batchBlendState (spriteBatch g)) \<and>
   depthStencilState (ctx (emit ([SpriteBatch_Begin] @ overlay_text
       @ [SpriteBatch_End (spriteBatch g)]) g)) = Some (batchDepthStencilState (spriteBatch g))"
proof -
  have "frame_calls g (DrawUI g) = overlay_calls g"
    by (simp add: DrawUI_eq frame_calls_emit)
  moreover have "blendState (ctx (DrawUI g)) = None" "depthStencilState (ctx (DrawUI g)) = None"
    by (simp_all add: DrawUI_eq overlay_calls_def emit_def issue_def)
  moreover have
    "blendState (ctx (emit ([SpriteBatch_Begin] @ overlay_text
       @ [SpriteBatch_End (spriteBatch g)]) g)) = Some (batchBlendState (spriteBatch g))"
    "depthStencilState (ctx (emit ([SpriteBatch_Begin] @ overlay_text
       @ [SpriteBatch_End (spriteBatch g)]) g)) = Some (batchDepthStencilState (spriteBatch g))"
    by (simp_all add: emit_def issue_def)
  ultimately show ?thesis by (simp add: overlay_calls_def)
qed


section \<open>The draw phase reads the lights in bounds\<close>

lemma RandomRange_camera [simp]: "camera (snd (RandomRange mn mx g)) = camera g"
  by (simp add: RandomRange_def rand_def Let_def split: prod.splits)

lemma random_point_camera [simp]: "camera (snd (random_point g)) = camera g"
  unfolding random_point_def Let_def by (simp add: split_beta)

lemma push_point_camera [simp]: "camera (push_point g) = camera g"
  by (simp add: push_point_def split_beta)

lemma GenerateLights_loop_camera: "camera (GenerateLights_loop g) = camera g"
proof (induction g rule: GenerateLights_loop.induct)
  case (1 g)
  show ?case
  proof (cases "length (lights g) < lightCount g")
    case True
    then show ?thesis using 1 by (subst GenerateLights_loop.simps) simp
  next
    case False
    then show ?thesis by (subst GenerateLights_loop.simps) simp
  qed
qed

lemma GenerateLights_camera: "camera (GenerateLights g) = camera g"
  by (simp add: GenerateLights_def GenerateLights_loop_camera)

lemma GenerateLights_in_bounds:
  "lights (GenerateLights g) \<noteq> []"
  "lightCount (GenerateLights g) \<le> length (lights (GenerateLights g))"
proof -
  have "length (lights (GenerateLights g)) = max 3 (lightCount g)"
    by (rule GenerateLights_length)
  then show "lights (GenerateLights g) \<noteq> []"
    and "lightCount (GenerateLights g) \<le> length (lights (GenerateLights g))"
    by (auto simp: GenerateLights_lightCount)
qed

lemma draw_entity_no_camera:
  assumes "camera g = None" "lights g \<noteq> []" "lightCount g \<le> length (lights g)"
  shows "draw_entity ge g = Inl NullPointer"
  using assms by (simp add: draw_entity_def Let_def)

lemma Draw_no_camera:
  assumes "camera g = None" "lights g \<noteq> []" "lightCount g \<le> length (lights g)"
  shows "Draw g = Inl NullPointer"
proof (cases "entities g")
  case Nil
  then show ?thesis using assms by (simp add: Draw_def Let_def DrawPointLights_def)
next
  case (Cons ge ges)
  then show ?thesis using assms by (simp add: Draw_def Let_def draw_entity_no_camera)
qed

text \<open>
  C10: after \<^verbatim>\<open>GenerateLights\<close> the collection holds \<open>max 3 lightCount\<close> records. So, for
  every value of \<open>lightCount\<close>, the read of \<open>lightCount\<close> records from index 0 in
  \<^verbatim>\<open>Draw\<close> and every access \<^verbatim>\<open>lights[i]\<close> with \<open>i < lightCount\<close> in \<^verbatim>\<open>DrawPointLights\<close>
  stay inside the collection: no draw function reports an out-of-range access, and with a
  camera the whole frame is drawn.
\<close>

theorem Draw_reads_in_bounds:
  "length (lights (GenerateLights g)) = max 3 (lightCount (GenerateLights g)) \<and>
   lightCount (GenerateLights g) \<le> length (lights (GenerateLights g)) \<and>
   draw_entity ge (GenerateLights g) \<noteq> Inl OutOfRange \<and>
   DrawPointLights (GenerateLights g) \<noteq> Inl OutOfRange \<and>
   Draw (GenerateLights g) \<noteq> Inl OutOfRange \<and>
   (camera g = Some cam \<longrightarrow>
      Draw (GenerateLights g) =
        Inr (emit (frame_trace (GenerateLights g) cam) (GenerateLights g)))"
proof -
  let ?g = "GenerateLights g"
  note b = GenerateLights_in_bounds [of g]
  have len: "length (lights ?g) = max 3 (lightCount ?g)"
    by (simp add: GenerateLights_length GenerateLights_lightCount)
  have ent: "draw_entity ge ?g \<noteq> Inl OutOfRange"
    using b by (cases "camera ?g") (simp_all add: draw_entity_no_camera draw_entity_ok)
  have pl: "DrawPointLights ?g \<noteq> Inl OutOfRange"
  proof (cases "camera ?g")
    case None
    then show ?thesis by (simp add: DrawPointLights_def Let_def)
  next
    case (Some c)
    then show ?thesis using b by (simp add: DrawPointLights_ok)
  qed
  have dr: "Draw ?g \<noteq> Inl OutOfRange"
    using b by (cases "camera ?g") (simp_all add: Draw_no_camera Draw_ok)
  have ok: "camera g = Some cam \<longrightarrow> Draw ?g = Inr (emit (frame_trace ?g cam) ?g)"
    using b by (simp add: Draw_ok GenerateLights_camera)
  show ?thesis using len b(2) ent pl dr ok by blast
qed

theorem Draw_reads_in_bounds_witness:
  "camera game_demo = Some demo_camera \<and>
   length (lights (GenerateLights game_demo)) = 5 \<and>
   lightCount (GenerateLights game_demo) = 5 \<and>
   Draw (GenerateLights game_demo) =
     Inr (emit (frame_trace (GenerateLights game_demo) demo_camera) (GenerateLights game_demo)) \<and>
   length (lights (GenerateLights game_ctor)) = 3 \<and>
   lightCount (GenerateLights game_ctor) = 0 \<and>
   Draw (GenerateLights game_ctor) \<noteq> Inl OutOfRange"
proof -
  have a: "lightCount game_demo = 5" "lightCount game_ctor = 0"
    by (simp_all add: game_demo_def game_ctor_def)
  show ?thesis
    using demo_state(1) Draw_reads_in_bounds [of game_demo demo_entity demo_camera]
      Draw_reads_in_bounds [of game_ctor demo_entity demo_camera]
    by (simp add: GenerateLights_lightCount a)
qed

end
